theory Spec2Isabelle
  imports Main "HOL-Library.Sublist"
begin

section \<open>Values shared by the whole development\<close>

text \<open>
  JSON values as \<^verbatim>\<open>JSON.parse\<close> returns them. Number literals keep their text: no
  arithmetic is done on them anywhere in the code under study.
\<close>

datatype json =
    JNull
  | JBool bool
  | JNum string
  | JStr string
  | JArr "json list"
  | JObj "(string \<times> json) list"

text \<open>The type inferred from \<^verbatim>\<open>toolChoiceSchema\<close> (batteries/docs-components.tsx, line 46).\<close>

record tool_choice =
  nameOfTool :: string
  parameters :: "(string \<times> json) list"
  responseToUser :: string

text \<open>
  Thrown values. JavaScript can throw anything, so \<^verbatim>\<open>catch (e: any)\<close> may receive
  \<^verbatim>\<open>null\<close> or \<^verbatim>\<open>undefined\<close> (\<open>Nullish\<close>, on which every property access is a
  TypeError) or any other value (\<open>ErrorObj\<close>). Of such a value only the properties the
  code reads are kept, each absent when the value has none: \<^verbatim>\<open>message\<close>, \<^verbatim>\<open>code\<close>, and
  the \<^verbatim>\<open>kind\<close> and \<^verbatim>\<open>data\<close> that \<^verbatim>\<open>AIJSXError\<close> adds.
\<close>

datatype kind = User | Runtime | Internal

datatype code_val = CodeNum int | CodeUndefined | CodeOther string

datatype data =
    NoData
  | OutputData string
  | ChoiceData tool_choice
  | ApiData "(string \<times> string) list"

datatype thrown =
    Nullish
  | ErrorObj (err_message: "string option") (err_code: code_val) (err_kind: "kind option")
      (err_data: data)

text \<open>
  Modelled from the spec: the class \<^verbatim>\<open>AIJSXError\<close> of core/errors is not among the sources.
  The spec (section 4.E) gives errors as records of code, kind, message and data with the
  kinds user, runtime and internal; the arguments are in the order of the constructor calls
  in the sources: message, code, kind, data. A TypeError of the language has a message
  only.
\<close>

definition AIJSXError :: "string \<Rightarrow> code_val \<Rightarrow> kind \<Rightarrow> data \<Rightarrow> thrown" where
  "AIJSXError msg c k d = ErrorObj (Some msg) c (Some k) d"

definition TypeError :: "string \<Rightarrow> thrown" where
  "TypeError msg = ErrorObj (Some msg) CodeUndefined None NoData"

text \<open>
  The members of \<^verbatim>\<open>ErrorCode\<close> that the sources name. The enumeration itself
  (core/errors) is not among the sources, so every function that reads a member takes the
  table \<open>E\<close> from member to run-time value as a parameter; a member the enumeration does
  not declare reads as \<open>CodeUndefined\<close>.
\<close>

datatype ErrorCode =
    ModelOutputCouldNotBeParsedForTool
  | ModelHallucinatedTool
  | ChatModelDoesNotSupportFunctions
  | ChatModelDoesntSupportFunctions
  | ChatCompletionMissingChildren
  | ChatCompletionUnexpectedChild
  | AnthropicDoesNotSupportFunctions
  | AnthropicDoesNotSupportCompletionModels
  | AnthropicAPIError

type_synonym code_table = "ErrorCode \<Rightarrow> code_val"


section \<open>Nodes, and the store behind memoized nodes (lib/memoize.tsx)\<close>

text \<open>
  A render context is known by its identity only: it is the key of a \<^verbatim>\<open>WeakMap\<close>.
  A \<open>ref\<close> is the address of the closure state that one call of \<^verbatim>\<open>memo\<close> creates.
\<close>

type_synonym ctx = nat
type_synonym ref = nat

datatype scalar = Str string | Num int | Boolean bool | Null | Undefined

text \<open>
  The tag of an element is a function; it is modelled by its name. \<open>Memoized\<close> and
  \<open>MemoizedPromise\<close> are the two local components of \<^verbatim>\<open>memo\<close> (lines 39 and 48).
\<close>

datatype tag = Component string | Memoized | MemoizedPromise

text \<open>
  Props: whether \<^verbatim>\<open>isMemoizedSymbol in props\<close> holds, the \<^verbatim>\<open>id\<close> that \<^verbatim>\<open>memo\<close> sets,
  and the other entries. The \<^verbatim>\<open>children\<close> entry is a field of the element below.
\<close>

record props =
  isMemoized :: bool
  ident :: "nat option"
  other :: "(string \<times> string) list"

text \<open>What one call of \<^verbatim>\<open>next()\<close> on an async generator settles to.\<close>

datatype 'n iter_result = Yield 'n | Return 'n | Raise thrown

text \<open>
  A renderable:
  \<^item> a scalar (\<^verbatim>\<open>typeof renderable !== 'object' || renderable === null\<close>);
  \<^item> an array;
  \<^item> an element with tag, props, children and its \<^verbatim>\<open>render\<close>: either a function of the
    context, which returns a node or throws, or the closure that \<^verbatim>\<open>memo\<close> builds at
    line 27, known by the address of its \<^verbatim>\<open>memoizedValues\<close>;
  \<^item> a promise, given by what it settles to;
  \<^item> an async generator that has not been started, given by what its successive
    \<^verbatim>\<open>next()\<close> calls settle to (call number 0 first);
  \<^item> the element \<^verbatim>\<open><MemoizedGenerator id={n} {...{[isMemoizedSymbol]: true}} />\<close> of line 82,
    known by its id and the address of the closure state (\<^verbatim>\<open>sink\<close>, \<^verbatim>\<open>completed\<close>,
    \<^verbatim>\<open>nextPromise\<close>) it shares with every iterator it creates.
\<close>

datatype node =
    Scalar scalar
  | Array "node list"
  | Element tag props "node list" render_fn
  | Promise "thrown + node"
  | Generator "nat \<Rightarrow> node iter_result"
  | MemoizedGenerator nat ref
and render_fn =
    Fn "ctx \<Rightarrow> thrown + node"
  | MemoRender ref

text \<open>The closure state of a memoized element: the wrapped \<^verbatim>\<open>render\<close> and the WeakMap.\<close>

record elem_cell =
  inner :: render_fn
  memoizedValues :: "ctx \<rightharpoonup> node"

text \<open>
  The closure state of a memoized generator (lines 54 to 57). \<open>pulls\<close> counts the calls
  of \<^verbatim>\<open>generator.next()\<close> made so far, which is also the position in the generator;
  \<open>outstanding\<close> counts those of them that have not settled yet. \<^verbatim>\<open>nextPromise\<close> is
  \<open>None\<close> for \<^verbatim>\<open>null\<close>, and otherwise the state of the promise stored in it.
\<close>

datatype promise = Pending | Rejected thrown

record gen_cell =
  generator :: "nat \<Rightarrow> node iter_result"
  pulls :: nat
  outstanding :: nat
  sink :: "node list"
  completed :: bool
  nextPromise :: "promise option"

text \<open>
  One iterator made by \<^verbatim>\<open>MemoizedGenerator()\<close>: the closure state it reads, its local
  \<^verbatim>\<open>index\<close>, where it stands, and the values it has yielded so far.
\<close>

datatype cstatus = Ready | Awaiting | Done | Failed thrown

record consumer =
  cell :: ref
  index :: nat
  status :: cstatus
  out :: "node list"

text \<open>
  The store: the module variable \<^verbatim>\<open>memoizedId\<close>, the closure states, the iterators, and
  a trace with one entry \<open>(r, c)\<close> for each evaluation of \<^verbatim>\<open>renderable.render(ctx)\<close> at
  line 32 by the closure \<open>r\<close> under the context \<open>c\<close>.
\<close>

record store =
  memoizedId :: nat
  elem_cells :: "elem_cell list"
  gen_cells :: "gen_cell list"
  consumers :: "consumer list"
  trace :: "(ref \<times> ctx) list"

definition empty_store :: store where
  "empty_store =
     \<lparr>memoizedId = 0, elem_cells = [], gen_cells = [], consumers = [], trace = []\<rparr>"

definition memo_props :: "nat \<Rightarrow> props" where
  "memo_props n = \<lparr>isMemoized = True, ident = Some n, other = []\<rparr>"

definition new_gen_cell :: "(nat \<Rightarrow> node iter_result) \<Rightarrow> gen_cell" where
  "new_gen_cell g =
     \<lparr>generator = g, pulls = 0, outstanding = 0, sink = [], completed = False,
      nextPromise = None\<rparr>"

text \<open>
  \<^verbatim>\<open>memo\<close> (lines 7 to 83). \<^verbatim>\<open>renderable.map(memo)\<close> goes through the array from the
  left. A promise is given by what it settles to. The callback of
  \<^verbatim>\<open>renderable.then(memo)\<close> runs once, when the promise is fulfilled; the model runs it
  at once, after the \<^verbatim>\<open>++memoizedId\<close> of the wrapper, which changes only the ids and the
  addresses that the closures made by that callback get. A rejected promise stays as
  it is.
\<close>

fun memo :: "node \<Rightarrow> store \<Rightarrow> node \<times> store"
and memo_list :: "node list \<Rightarrow> store \<Rightarrow> node list \<times> store" where
  "memo (Scalar v) s = (Scalar v, s)"
| "memo (Array xs) s = (case memo_list xs s of (ys, s') \<Rightarrow> (Array ys, s'))"
| "memo (Element t p ch rf) s =
     (if isMemoized p then (Element t p ch rf, s)
      else
        let r = length (elem_cells s);
            n = memoizedId s + 1;
            newElement = Element t p ch (MemoRender r)
        in (Element Memoized (memo_props n) [newElement] (Fn (\<lambda>_. Inr newElement)),
            s\<lparr>memoizedId := n,
              elem_cells := elem_cells s @ [\<lparr>inner = rf, memoizedValues = Map.empty\<rparr>]\<rparr>))"
| "memo (MemoizedGenerator n r) s = (MemoizedGenerator n r, s)"
| "memo (Promise (Inl e)) s =
     (let n = memoizedId s + 1
      in (Element MemoizedPromise (memo_props n) [] (Fn (\<lambda>_. Inr (Promise (Inl e)))),
          s\<lparr>memoizedId := n\<rparr>))"
| "memo (Promise (Inr v)) s =
     (let n = memoizedId s + 1
      in case memo v (s\<lparr>memoizedId := n\<rparr>) of (m, s') \<Rightarrow>
         (Element MemoizedPromise (memo_props n) [] (Fn (\<lambda>_. Inr (Promise (Inr m)))), s'))"
| "memo (Generator g) s =
     (let n = memoizedId s + 1; r = length (gen_cells s)
      in (MemoizedGenerator n r,
          s\<lparr>memoizedId := n, gen_cells := gen_cells s @ [new_gen_cell g]\<rparr>))"
| "memo_list [] s = ([], s)"
| "memo_list (x # xs) s =
     (case memo x s of (y, s1) \<Rightarrow> case memo_list xs s1 of (ys, s2) \<Rightarrow> (y # ys, s2))"


section \<open>Idempotence of memo\<close>

lemma memo_twice:
  "memo (fst (memo x s)) s' = (fst (memo x s), s')"
  "memo_list (fst (memo_list xs s)) s' = (fst (memo_list xs s), s')"
  by (induction x s and xs s arbitrary: s' and s' rule: memo_memo_list.induct)
     (auto split: prod.splits simp: Let_def memo_props_def)

text \<open>
  Claim C6. \<^verbatim>\<open>memo\<close> is idempotent: applied to a node that \<^verbatim>\<open>memo\<close> returned, in any
  later store, it returns that node and changes nothing in the store (no new closure, no
  new id); and an element whose props carry the memoized flag is returned as it is, not
  wrapped again.
\<close>

theorem memo_idempotent:
  "memo (fst (memo x s)) s' = (fst (memo x s), s') \<and>
   memo (Element t (p\<lparr>isMemoized := True\<rparr>) ch rf) s' =
     (Element t (p\<lparr>isMemoized := True\<rparr>) ch rf, s')"
  by (simp add: memo_twice)

section \<open>Rendering a memoized element\<close>

text \<open>
  The closure of line 27 always has its \<^verbatim>\<open>memoizedValues\<close>, and the render it wraps was
  built before it. A store that \<^verbatim>\<open>memo\<close> built has both properties; on any other
  store the model throws \<open>no_such_cell\<close>, which the code cannot do.
\<close>

definition no_such_cell :: thrown where
  "no_such_cell = TypeError ''no such closure''"

fun older :: "render_fn \<Rightarrow> ref \<Rightarrow> bool" where
  "older (Fn f) r = True"
| "older (MemoRender r') r = (r' < r)"

text \<open>\<^verbatim>\<open>memoizedValues.set(ctx, memoizedValue)\<close> in the closure \<open>r\<close>.\<close>

definition set_memoized :: "store \<Rightarrow> ref \<Rightarrow> ctx \<Rightarrow> node \<Rightarrow> store" where
  "set_memoized s r c v =
     s\<lparr>elem_cells := (elem_cells s)
         [r := (elem_cells s ! r)\<lparr>memoizedValues := (memoizedValues (elem_cells s ! r))(c \<mapsto> v)\<rparr>]\<rparr>"

text \<open>
  Calling a \<^verbatim>\<open>render\<close>. A function of the context is applied. The closure of lines
  27 to 35 looks the context up; when it is there the stored value is the result; when
  not, the wrapped render is called (one entry in the trace), and if it returns, its
  result goes through \<^verbatim>\<open>memo\<close> and is stored. When the wrapped render throws, lines
  33 and 34 are not reached: nothing is stored and the exception goes to the caller.
\<close>

function invoke :: "render_fn \<Rightarrow> ctx \<Rightarrow> store \<Rightarrow> (thrown + node) \<times> store" where
  "invoke (Fn f) c s = (f c, s)"
| "invoke (MemoRender r) c s =
     (if r < length (elem_cells s) \<and> older (inner (elem_cells s ! r)) r then
        (case memoizedValues (elem_cells s ! r) c of
           Some v \<Rightarrow> (Inr v, s)
         | None \<Rightarrow>
             (case invoke (inner (elem_cells s ! r)) c (s\<lparr>trace := trace s @ [(r, c)]\<rparr>) of
                (Inl e, s1) \<Rightarrow> (Inl e, s1)
              | (Inr v, s1) \<Rightarrow>
                  (case memo v s1 of (m, s2) \<Rightarrow> (Inr m, set_memoized s2 r c m))))
      else (Inl no_such_cell, s))"
  by pat_completeness auto
termination
  by (relation "measure (\<lambda>(rf, c, s). case rf of Fn f \<Rightarrow> 0 | MemoRender r \<Rightarrow> Suc r)")
     (auto split: render_fn.splits)


subsection \<open>What memo and a render leave untouched\<close>

lemma memo_elem_cells:
  "\<exists>cs. elem_cells (snd (memo x s)) = elem_cells s @ cs"
  "\<exists>cs. elem_cells (snd (memo_list xs s)) = elem_cells s @ cs"
  by (induction x s and xs s rule: memo_memo_list.induct)
     (auto split: prod.splits simp: Let_def)

lemma memo_trace:
  "trace (snd (memo x s)) = trace s"
  "trace (snd (memo_list xs s)) = trace s"
  by (induction x s and xs s rule: memo_memo_list.induct)
     (auto split: prod.splits simp: Let_def)


lemma memo_cells_length:
  "length (elem_cells s) \<le> length (elem_cells (snd (memo x s)))"
  using memo_elem_cells(1)[of x s] by auto

lemma memo_cells_nth:
  "i < length (elem_cells s) \<Longrightarrow> elem_cells (snd (memo x s)) ! i = elem_cells s ! i"
  using memo_elem_cells(1)[of x s] by (auto simp: nth_append)

lemma set_memoized_simps [simp]:
  "trace (set_memoized s r c v) = trace s"
  "length (elem_cells (set_memoized s r c v)) = length (elem_cells s)"
  "gen_cells (set_memoized s r c v) = gen_cells s"
  "consumers (set_memoized s r c v) = consumers s"
  "memoizedId (set_memoized s r c v) = memoizedId s"
  by (simp_all add: set_memoized_def)

lemma set_memoized_nth:
  "i < length (elem_cells s) \<Longrightarrow>
   elem_cells (set_memoized s r c v) ! i =
     (if i = r then (elem_cells s ! r)\<lparr>memoizedValues := (memoizedValues (elem_cells s ! r))(c \<mapsto> v)\<rparr>
      else elem_cells s ! i)"
  by (simp add: set_memoized_def)


lemma invoke_cases [case_names Fn Bad Cached Throws Returns]:
  assumes "\<And>f c s. P (Fn f) c s (f c, s)"
    and "\<And>r c s. \<not> (r < length (elem_cells s) \<and> older (inner (elem_cells s ! r)) r) \<Longrightarrow>
           P (MemoRender r) c s (Inl no_such_cell, s)"
    and "\<And>r c s v. r < length (elem_cells s) \<Longrightarrow> older (inner (elem_cells s ! r)) r \<Longrightarrow>
           memoizedValues (elem_cells s ! r) c = Some v \<Longrightarrow> P (MemoRender r) c s (Inr v, s)"
    and "\<And>r c s e s1. r < length (elem_cells s) \<Longrightarrow> older (inner (elem_cells s ! r)) r \<Longrightarrow>
           memoizedValues (elem_cells s ! r) c = None \<Longrightarrow>
           invoke (inner (elem_cells s ! r)) c (s\<lparr>trace := trace s @ [(r, c)]\<rparr>) = (Inl e, s1) \<Longrightarrow>
           P (inner (elem_cells s ! r)) c (s\<lparr>trace := trace s @ [(r, c)]\<rparr>) (Inl e, s1) \<Longrightarrow>
           P (MemoRender r) c s (Inl e, s1)"
    and "\<And>r c s v s1 m s2. r < length (elem_cells s) \<Longrightarrow> older (inner (elem_cells s ! r)) r \<Longrightarrow>
           memoizedValues (elem_cells s ! r) c = None \<Longrightarrow>
           invoke (inner (elem_cells s ! r)) c (s\<lparr>trace := trace s @ [(r, c)]\<rparr>) = (Inr v, s1) \<Longrightarrow>
           P (inner (elem_cells s ! r)) c (s\<lparr>trace := trace s @ [(r, c)]\<rparr>) (Inr v, s1) \<Longrightarrow>
           memo v s1 = (m, s2) \<Longrightarrow>
           P (MemoRender r) c s (Inr m, set_memoized s2 r c m)"
  shows "P rf c s (invoke rf c s)"
proof (induction rf c s rule: invoke.induct)
  case (1 f c s)
  show ?case using assms(1) by simp
next
  case (2 r c s)
  show ?case
  proof (cases "r < length (elem_cells s) \<and> older (inner (elem_cells s ! r)) r")
    case False
    then show ?thesis using assms(2)[of r s c] by auto
  next
    case ok: True
    show ?thesis
    proof (cases "memoizedValues (elem_cells s ! r) c")
      case (Some v)
      with ok assms(3)[of r s c v] show ?thesis by simp
    next
      case None
      note IH = 2[OF ok None]
      obtain res s1 where inv:
        "invoke (inner (elem_cells s ! r)) c (s\<lparr>trace := trace s @ [(r, c)]\<rparr>) = (res, s1)"
        by (cases "invoke (inner (elem_cells s ! r)) c (s\<lparr>trace := trace s @ [(r, c)]\<rparr>)")
      show ?thesis
      proof (cases res)
        case (Inl e)
        with ok None inv IH assms(4)[of r s c e s1] show ?thesis by simp
      next
        case (Inr v)
        obtain m s2 where mm: "memo v s1 = (m, s2)" by (cases "memo v s1")
        with Inr ok None inv IH assms(5)[of r s c v s1 m s2] show ?thesis by simp
      qed
    qed
  qed
qed

definition rank :: "render_fn \<Rightarrow> nat" where
  "rank rf = (case rf of Fn f \<Rightarrow> 0 | MemoRender r \<Rightarrow> Suc r)"

lemma older_rank: "older rf r \<Longrightarrow> rank rf \<le> r"
  by (cases rf) (auto simp: rank_def)

text \<open>What a call of a render function leaves untouched.\<close>

definition frame :: "render_fn \<Rightarrow> ctx \<Rightarrow> store \<Rightarrow> (thrown + node) \<times> store \<Rightarrow> bool" where
  "frame rf c s res \<longleftrightarrow>
     length (elem_cells s) \<le> length (elem_cells (snd res)) \<and>
     (\<forall>i < length (elem_cells s).
        inner (elem_cells (snd res) ! i) = inner (elem_cells s ! i) \<and>
        (\<forall>c' v. memoizedValues (elem_cells s ! i) c' = Some v \<longrightarrow>
                memoizedValues (elem_cells (snd res) ! i) c' = Some v) \<and>
        (\<forall>c'. c' \<noteq> c \<longrightarrow>
                memoizedValues (elem_cells (snd res) ! i) c' = memoizedValues (elem_cells s ! i) c')) \<and>
     (\<exists>t. trace (snd res) = trace s @ t \<and> distinct t \<and>
          (\<forall>(r', c') \<in> set t. c' = c \<and> r' < rank rf \<and> r' < length (elem_cells s) \<and>
              memoizedValues (elem_cells s ! r') c = None))"

lemma invoke_frame: "frame rf c s (invoke rf c s)"
proof (induction rule: invoke_cases)
  case (Fn f c s)
  then show ?case by (simp add: frame_def)
next
  case (Bad r c s)
  then show ?case by (simp add: frame_def)
next
  case (Cached r c s v)
  then show ?case by (simp add: frame_def)
next
  case (Throws r c s e s1)
  then show ?case
    using older_rank[of "inner (elem_cells s ! r)" r]
    by (fastforce simp: frame_def rank_def)
next
  case (Returns r c s v s1 m s2)
  let ?s0 = "s\<lparr>trace := trace s @ [(r, c)]\<rparr>"
  from Returns.IH have len1: "length (elem_cells s) \<le> length (elem_cells s1)"
    by (simp add: frame_def)
  have len2: "length (elem_cells s1) \<le> length (elem_cells s2)"
    using memo_cells_length[of s1 v] Returns.hyps(5) by simp
  have nth2: "\<And>i. i < length (elem_cells s1) \<Longrightarrow> elem_cells s2 ! i = elem_cells s1 ! i"
    using memo_cells_nth[of _ s1 v] Returns.hyps(5) by simp
  have tr2: "trace s2 = trace s1" using memo_trace(1)[of v s1] Returns.hyps(5) by simp
  from Returns.IH obtain t where t: "trace s1 = trace s @ [(r, c)] @ t" "distinct t"
    "\<forall>(r', c') \<in> set t. c' = c \<and> r' < rank (inner (elem_cells s ! r)) \<and>
        r' < length (elem_cells s) \<and> memoizedValues (elem_cells s ! r') c = None"
    by (auto simp: frame_def)
  have "(r, c) \<notin> set t"
    using t(3) older_rank[OF Returns.hyps(2)] by auto
  then have dist: "distinct ((r, c) # t)" using t(2) by simp
  have ent: "\<forall>(r', c') \<in> set ((r, c) # t). c' = c \<and> r' < rank (MemoRender r) \<and>
        r' < length (elem_cells s) \<and> memoizedValues (elem_cells s ! r') c = None"
    using t(3) older_rank[OF Returns.hyps(2)] Returns.hyps(1,3) by (auto simp: rank_def)
  have cells: "\<forall>i < length (elem_cells s).
        inner (elem_cells (set_memoized s2 r c m) ! i) = inner (elem_cells s ! i) \<and>
        (\<forall>c' v. memoizedValues (elem_cells s ! i) c' = Some v \<longrightarrow>
                memoizedValues (elem_cells (set_memoized s2 r c m) ! i) c' = Some v) \<and>
        (\<forall>c'. c' \<noteq> c \<longrightarrow>
                memoizedValues (elem_cells (set_memoized s2 r c m) ! i) c' =
                memoizedValues (elem_cells s ! i) c')"
  proof (intro allI impI)
    fix i assume i: "i < length (elem_cells s)"
    then have i1: "i < length (elem_cells s1)" and i2: "i < length (elem_cells s2)"
      using len1 len2 by auto
    have r2: "r < length (elem_cells s2)" using Returns.hyps(1) len1 len2 by auto
    from Returns.IH i have
      a: "inner (elem_cells s1 ! i) = inner (elem_cells s ! i)" and
      b: "\<And>c' v. memoizedValues (elem_cells s ! i) c' = Some v \<Longrightarrow>
                memoizedValues (elem_cells s1 ! i) c' = Some v" and
      c: "\<And>c'. c' \<noteq> c \<Longrightarrow>
                memoizedValues (elem_cells s1 ! i) c' = memoizedValues (elem_cells s ! i) c'"
      by (auto simp: frame_def)
    show "inner (elem_cells (set_memoized s2 r c m) ! i) = inner (elem_cells s ! i) \<and>
        (\<forall>c' v. memoizedValues (elem_cells s ! i) c' = Some v \<longrightarrow>
                memoizedValues (elem_cells (set_memoized s2 r c m) ! i) c' = Some v) \<and>
        (\<forall>c'. c' \<noteq> c \<longrightarrow>
                memoizedValues (elem_cells (set_memoized s2 r c m) ! i) c' =
                memoizedValues (elem_cells s ! i) c')"
      using a b c Returns.hyps(3) nth2[OF i1] i2 r2 nth2[of r]
      by (auto simp: set_memoized_nth)
  qed
  show ?case
    unfolding frame_def
    apply (intro conjI)
    subgoal using len1 len2 by simp
    subgoal using cells by simp
    subgoal
      apply (rule exI[of _ "(r, c) # t"])
      using t(1) tr2 dist ent by simp
    done
qed


lemma distinct_count_le_1: "distinct t \<Longrightarrow> count_list t x \<le> 1"
  by (induction t) auto

definition stored :: "store \<Rightarrow> ref \<Rightarrow> ctx \<Rightarrow> node \<Rightarrow> bool" where
  "stored s r c m \<longleftrightarrow>
     r < length (elem_cells s) \<and> older (inner (elem_cells s ! r)) r \<and>
     memoizedValues (elem_cells s ! r) c = Some m"

lemma stored_invoke_hit: "stored s r c m \<Longrightarrow> invoke (MemoRender r) c s = (Inr m, s)"
  by (simp add: stored_def)

lemma stored_after_invoke:
  assumes "stored s r c m"
  shows "stored (snd (invoke rf c' s)) r c m"
    and "count_list (trace (snd (invoke rf c' s))) (r, c) = count_list (trace s) (r, c)"
proof -
  have fr: "frame rf c' s (invoke rf c' s)" by (rule invoke_frame)
  from fr assms show "stored (snd (invoke rf c' s)) r c m"
    by (auto simp: frame_def stored_def)
  from fr obtain t where t: "trace (snd (invoke rf c' s)) = trace s @ t"
    "\<forall>(r', c'') \<in> set t. c'' = c' \<and> r' < rank rf \<and> r' < length (elem_cells s) \<and>
        memoizedValues (elem_cells s ! r') c' = None"
    unfolding frame_def by blast
  have "(r, c) \<notin> set t" using t(2) assms by (auto simp: stored_def)
  then show "count_list (trace (snd (invoke rf c' s))) (r, c) = count_list (trace s) (r, c)"
    using t(1) by (simp add: count_list_0_iff)
qed

lemma stored_after_memo:
  assumes "stored s r c m"
  shows "stored (snd (memo x s)) r c m"
  using assms memo_cells_length[of s x] memo_cells_nth[of r s x]
  by (auto simp: stored_def)

lemma invoke_count_le:
  "count_list (trace (snd (invoke rf c s))) x \<le> count_list (trace s) x + 1"
proof -
  have "frame rf c s (invoke rf c s)" by (rule invoke_frame)
  then obtain t where "trace (snd (invoke rf c s)) = trace s @ t" "distinct t"
    unfolding frame_def by blast
  then show ?thesis using distinct_count_le_1[of t x] by simp
qed

lemma invoke_miss_count:
  assumes "r < length (elem_cells s)" "older (inner (elem_cells s ! r)) r"
    "memoizedValues (elem_cells s ! r) c = None"
  shows "count_list (trace (snd (invoke (MemoRender r) c s))) (r, c) =
         count_list (trace s) (r, c) + 1"
proof -
  let ?s0 = "s\<lparr>trace := trace s @ [(r, c)]\<rparr>"
  obtain res s1 where inv: "invoke (inner (elem_cells s ! r)) c ?s0 = (res, s1)"
    by (cases "invoke (inner (elem_cells s ! r)) c ?s0")
  have "frame (inner (elem_cells s ! r)) c ?s0 (res, s1)"
    using invoke_frame[of "inner (elem_cells s ! r)" c ?s0] inv by simp
  then obtain t where t: "trace s1 = trace s @ [(r, c)] @ t"
    "\<forall>(r', c') \<in> set t. r' < rank (inner (elem_cells s ! r))"
    unfolding frame_def by fastforce
  have "(r, c) \<notin> set t" using t(2) older_rank[OF assms(2)] by auto
  then have c1: "count_list (trace s1) (r, c) = count_list (trace s) (r, c) + 1"
    using t(1) by simp
  show ?thesis
  proof (cases res)
    case (Inl e)
    with assms inv c1 show ?thesis by simp
  next
    case (Inr v)
    obtain m s2 where mm: "memo v s1 = (m, s2)" by (cases "memo v s1")
    have "trace s2 = trace s1" using memo_trace(1)[of v s1] mm by simp
    with assms inv Inr mm c1 show ?thesis by simp
  qed
qed

lemma invoke_above:
  "\<forall>i < length (elem_cells s). rank rf \<le> i \<longrightarrow>
     elem_cells (snd (invoke rf c s)) ! i = elem_cells s ! i"
proof (rule invoke_cases[where P = "\<lambda>rf c s res.
    \<forall>i < length (elem_cells s). rank rf \<le> i \<longrightarrow> elem_cells (snd res) ! i = elem_cells s ! i"],
    goal_cases)
  case (4 r c s e s1)
  then show ?case using older_rank[of "inner (elem_cells s ! r)" r] by (auto simp: rank_def)
next
  case (5 r c s v s1 m s2)
  have len1: "length (elem_cells s) \<le> length (elem_cells s1)"
    using invoke_frame[of "inner (elem_cells s ! r)" c "s\<lparr>trace := trace s @ [(r, c)]\<rparr>"] 5(4)
    by (simp add: frame_def)
  have len2: "length (elem_cells s1) \<le> length (elem_cells s2)"
    using memo_cells_length[of s1 v] 5(6) by simp
  show ?case
  proof (intro allI impI)
    fix i assume i: "i < length (elem_cells s)" and ri: "rank (MemoRender r) \<le> i"
    then have ir: "i \<noteq> r" "r \<le> i" by (auto simp: rank_def)
    have "elem_cells (set_memoized s2 r c m) ! i = elem_cells s2 ! i"
      using i len1 len2 ir by (simp add: set_memoized_nth)
    also have "\<dots> = elem_cells s1 ! i"
      using memo_cells_nth[of i s1 v] 5(6) i len1 by simp
    also have "\<dots> = elem_cells s ! i"
      using 5(5) i ir older_rank[OF 5(2)] by simp
    finally show "elem_cells (snd (Inr m, set_memoized s2 r c m)) ! i = elem_cells s ! i" by simp
  qed
qed simp_all

lemma invoke_throws:
  assumes "r < length (elem_cells s)" "older (inner (elem_cells s ! r)) r"
    "memoizedValues (elem_cells s ! r) c = None"
    and "invoke (MemoRender r) c s = (Inl e, s')"
  shows "r < length (elem_cells s')" and "elem_cells s' ! r = elem_cells s ! r"
proof -
  let ?s0 = "s\<lparr>trace := trace s @ [(r, c)]\<rparr>"
  obtain res s1 where inv: "invoke (inner (elem_cells s ! r)) c ?s0 = (res, s1)"
    by (cases "invoke (inner (elem_cells s ! r)) c ?s0")
  have s': "s' = s1"
  proof (cases res)
    case (Inl e')
    with assms inv show ?thesis by simp
  next
    case (Inr v)
    with assms inv show ?thesis by (simp split: prod.splits)
  qed
  have "length (elem_cells s) \<le> length (elem_cells s1)"
    using invoke_frame[of "inner (elem_cells s ! r)" c ?s0] inv by (simp add: frame_def)
  with assms(1) show "r < length (elem_cells s')" by (simp add: s')
  from invoke_above[of ?s0 "inner (elem_cells s ! r)" c] inv assms(1) older_rank[OF assms(2)]
  show "elem_cells s' ! r = elem_cells s ! r" by (simp add: s')
qed

lemma invoke_returns:
  assumes "invoke (MemoRender r) c s = (Inr m, s')"
  shows "stored s' r c m"
    and "count_list (trace s') (r, c) \<le> count_list (trace s) (r, c) + 1"
    and "memoizedValues (elem_cells s ! r) c = None \<Longrightarrow>
         count_list (trace s') (r, c) = count_list (trace s) (r, c) + 1 \<and>
         (\<exists>v s1. invoke (inner (elem_cells s ! r)) c (s\<lparr>trace := trace s @ [(r, c)]\<rparr>) = (Inr v, s1) \<and>
                 m = fst (memo v s1))"
proof -
  have ok: "r < length (elem_cells s)" "older (inner (elem_cells s ! r)) r"
    using assms by (auto split: if_splits)
  have fr: "frame (MemoRender r) c s (invoke (MemoRender r) c s)" by (rule invoke_frame)
  then have len: "r < length (elem_cells s')"
    and inn: "inner (elem_cells s' ! r) = inner (elem_cells s ! r)"
    using ok assms by (auto simp: frame_def)
  from fr assms obtain t where t: "trace s' = trace s @ t" "distinct t"
    by (auto simp: frame_def)
  show cnt: "count_list (trace s') (r, c) \<le> count_list (trace s) (r, c) + 1"
    using t(1) distinct_count_le_1[OF t(2), of "(r, c)"] by simp
  show "stored s' r c m"
  proof (cases "memoizedValues (elem_cells s ! r) c")
    case (Some v)
    with assms ok show ?thesis by (auto simp: stored_def)
  next
    case None
    obtain res s1 where inv:
      "invoke (inner (elem_cells s ! r)) c (s\<lparr>trace := trace s @ [(r, c)]\<rparr>) = (res, s1)"
      by (cases "invoke (inner (elem_cells s ! r)) c (s\<lparr>trace := trace s @ [(r, c)]\<rparr>)")
    with assms ok None obtain v where res: "res = Inr v" by (cases res) auto
    obtain m' s2 where mm: "memo v s1 = (m', s2)" by (cases "memo v s1")
    from assms ok None inv res mm have s': "s' = set_memoized s2 r c m'" and m: "m = m'"
      by auto
    from len have "r < length (elem_cells s2)" by (simp add: s')
    then have "memoizedValues (elem_cells s' ! r) c = Some m"
      by (simp add: s' m set_memoized_nth)
    with len inn ok show ?thesis by (simp add: stored_def)
  qed
  show "count_list (trace s') (r, c) = count_list (trace s) (r, c) + 1 \<and>
         (\<exists>v s1. invoke (inner (elem_cells s ! r)) c (s\<lparr>trace := trace s @ [(r, c)]\<rparr>) = (Inr v, s1) \<and>
                 m = fst (memo v s1))"
    if None: "memoizedValues (elem_cells s ! r) c = None"
  proof -
    obtain res s1 where inv:
      "invoke (inner (elem_cells s ! r)) c (s\<lparr>trace := trace s @ [(r, c)]\<rparr>) = (res, s1)"
      by (cases "invoke (inner (elem_cells s ! r)) c (s\<lparr>trace := trace s @ [(r, c)]\<rparr>)")
    with assms ok None obtain v where res: "res = Inr v" by (cases res) auto
    obtain m' s2 where mm: "memo v s1 = (m', s2)" by (cases "memo v s1")
    from assms ok None inv res mm have s': "s' = set_memoized s2 r c m'" and m: "m = m'"
      by auto
    have fr1: "frame (inner (elem_cells s ! r)) c (s\<lparr>trace := trace s @ [(r, c)]\<rparr>) (res, s1)"
      using invoke_frame[of "inner (elem_cells s ! r)" c "s\<lparr>trace := trace s @ [(r, c)]\<rparr>"] inv
      by simp
    then obtain t1 where t1: "trace s1 = trace s @ [(r, c)] @ t1" by (auto simp: frame_def)
    have "trace s' = trace s1" using memo_trace(1)[of v s1] mm by (simp add: s')
    then have "count_list (trace s') (r, c) \<ge> count_list (trace s) (r, c) + 1"
      using t1 by simp
    with cnt inv res mm m show ?thesis by simp
  qed
qed

section \<open>Events on the store, and the iterators of a memoized generator\<close>

text \<open>
  JavaScript runs one piece of code at a time, from one suspension to the next. The
  pieces that touch the store are:
  \<^item> \<open>MemoNode x\<close>: \<^verbatim>\<open>memo\<close> is called on a node;
  \<^item> \<open>Render rf c\<close>: the render of an element is called with a context;
  \<^item> \<open>Subscribe r\<close>: \<^verbatim>\<open>MemoizedGenerator()\<close> is called (the element is rendered) and a
    new iterator with \<^verbatim>\<open>index = 0\<close> exists;
  \<^item> \<open>Resume k\<close>: the iterator \<open>k\<close> runs one turn of its \<^verbatim>\<open>while\<close> loop, after its
    consumer asked for the next value or after the promise it awaited was fulfilled;
  \<^item> \<open>Settle r\<close>: the pending \<^verbatim>\<open>generator.next()\<close> of the closure \<open>r\<close> settles and the
    callback of lines 68 to 75 runs, or the promise is rejected.
  Any list of events is an interleaving; an event that cannot happen in a state (an
  iterator that is suspended on a promise cannot run) leaves the state as it is.
\<close>

datatype event =
    MemoNode node
  | Render render_fn ctx
  | Subscribe ref
  | Resume nat
  | Settle ref

definition subscribe :: "ref \<Rightarrow> store \<Rightarrow> store" where
  "subscribe r s =
     (if r < length (gen_cells s)
      then s\<lparr>consumers := consumers s @ [\<lparr>cell = r, index = 0, status = Ready, out = []\<rparr>]\<rparr>
      else s)"

text \<open>
  One turn of the loop of lines 61 to 79. With \<^verbatim>\<open>index < sink.length\<close> the iterator
  yields \<^verbatim>\<open>sink[index++]\<close>. Otherwise, when \<^verbatim>\<open>completed\<close>, it leaves the loop and the
  generator function ends. Otherwise, when \<^verbatim>\<open>nextPromise == null\<close>, it calls
  \<^verbatim>\<open>generator.next()\<close> and stores the promise; in both remaining cases it then awaits
  \<^verbatim>\<open>nextPromise\<close>, and a rejected promise makes the \<^verbatim>\<open>await\<close> throw.
\<close>

definition resume :: "nat \<Rightarrow> store \<Rightarrow> store" where
  "resume k s =
     (if k < length (consumers s) \<and> status (consumers s ! k) = Ready \<and>
         cell (consumers s ! k) < length (gen_cells s)
      then
        let c = consumers s ! k; g = gen_cells s ! cell c in
        if index c < length (sink g) then
          s\<lparr>consumers := (consumers s)
              [k := c\<lparr>index := index c + 1, out := out c @ [sink g ! index c]\<rparr>]\<rparr>
        else if completed g then
          s\<lparr>consumers := (consumers s)[k := c\<lparr>status := Done\<rparr>]\<rparr>
        else
          (case nextPromise g of
             None \<Rightarrow>
               s\<lparr>gen_cells := (gen_cells s)
                    [cell c := g\<lparr>nextPromise := Some Pending, pulls := pulls g + 1,
                                 outstanding := outstanding g + 1\<rparr>],
                 consumers := (consumers s)[k := c\<lparr>status := Awaiting\<rparr>]\<rparr>
           | Some Pending \<Rightarrow> s\<lparr>consumers := (consumers s)[k := c\<lparr>status := Awaiting\<rparr>]\<rparr>
           | Some (Rejected e) \<Rightarrow> s\<lparr>consumers := (consumers s)[k := c\<lparr>status := Failed e\<rparr>]\<rparr>)
      else s)"

text \<open>The iterators of the closure \<open>r\<close> that await its promise go on with the status \<open>st\<close>.\<close>

definition wake :: "ref \<Rightarrow> cstatus \<Rightarrow> consumer list \<Rightarrow> consumer list" where
  "wake r st cs = map (\<lambda>c. if cell c = r \<and> status c = Awaiting then c\<lparr>status := st\<rparr> else c) cs"

text \<open>
  The pending \<^verbatim>\<open>generator.next()\<close> settles. Lines 69 to 74: a result with \<^verbatim>\<open>done\<close> sets
  \<^verbatim>\<open>completed\<close>, and its \<^verbatim>\<open>value\<close> is not read; any other result has its value
  memoized and pushed on \<^verbatim>\<open>sink\<close>; then \<^verbatim>\<open>nextPromise = null\<close>. When \<^verbatim>\<open>next()\<close> rejects,
  the callback does not run, so \<^verbatim>\<open>nextPromise\<close> keeps the rejected promise.
\<close>

definition settle :: "ref \<Rightarrow> store \<Rightarrow> store" where
  "settle r s =
     (if r < length (gen_cells s) \<and> 0 < outstanding (gen_cells s ! r) then
        let g = gen_cells s ! r in
        (case generator g (pulls g - outstanding g) of
           Yield v \<Rightarrow>
             (case memo v s of (m, s1) \<Rightarrow>
                s1\<lparr>gen_cells := (gen_cells s1)
                     [r := g\<lparr>sink := sink g @ [m], nextPromise := None,
                             outstanding := outstanding g - 1\<rparr>],
                   consumers := wake r Ready (consumers s1)\<rparr>)
         | Return v \<Rightarrow>
             s\<lparr>gen_cells := (gen_cells s)
                  [r := g\<lparr>completed := True, nextPromise := None,
                          outstanding := outstanding g - 1\<rparr>],
               consumers := wake r Ready (consumers s)\<rparr>
         | Raise e \<Rightarrow>
             s\<lparr>gen_cells := (gen_cells s)
                  [r := g\<lparr>nextPromise := Some (Rejected e), outstanding := outstanding g - 1\<rparr>],
               consumers := wake r (Failed e) (consumers s)\<rparr>)
      else s)"

fun step :: "event \<Rightarrow> store \<Rightarrow> store" where
  "step (MemoNode x) s = snd (memo x s)"
| "step (Render rf c) s = snd (invoke rf c s)"
| "step (Subscribe r) s = subscribe r s"
| "step (Resume k) s = resume k s"
| "step (Settle r) s = settle r s"

fun run :: "event list \<Rightarrow> store \<Rightarrow> store" where
  "run [] s = s"
| "run (e # es) s = run es (step e s)"

text \<open>
  A generator to run the model on: it yields \<^verbatim>\<open>"a"\<close>, then \<^verbatim>\<open>"ab"\<close>, and returns
  \<^verbatim>\<open>"abc"\<close>; and three stores that its memoized form goes through.
\<close>

definition three_frames :: "nat \<Rightarrow> node iter_result" where
  "three_frames k =
     (if k = 0 then Yield (Scalar (Str ''a''))
      else if k = 1 then Yield (Scalar (Str ''ab''))
      else Return (Scalar (Str ''abc'')))"



definition two_waiting :: store where
  "two_waiting =
     run [Subscribe 0, Subscribe 0, Resume 0, Resume 1]
       (snd (memo (Generator three_frames) empty_store))"

lemmas machine_defs =
  subscribe_def resume_def settle_def wake_def Let_def new_gen_cell_def empty_store_def

subsection \<open>The invariant of the closure state and its iterators\<close>

text \<open>
  A closure state is consistent when at most one call of \<^verbatim>\<open>next\<close> has not settled, there
  is one exactly when \<^verbatim>\<open>nextPromise\<close> is pending, and \<^verbatim>\<open>nextPromise\<close> is \<^verbatim>\<open>null\<close> once
  the generator is completed. An iterator is consistent when it has yielded the first
  \<^verbatim>\<open>index\<close> values of \<^verbatim>\<open>sink\<close>, and it awaits, has ended or has failed only with the
  whole of \<^verbatim>\<open>sink\<close> yielded. The empty store is consistent, and \<^verbatim>\<open>memo\<close>, the render
  of an element and every event keep a store consistent.
\<close>

definition cell_ok :: "gen_cell \<Rightarrow> bool" where
  "cell_ok g \<longleftrightarrow>
     outstanding g \<le> 1 \<and> outstanding g \<le> pulls g \<and>
     (outstanding g = 1) = (nextPromise g = Some Pending) \<and>
     (completed g \<longrightarrow> nextPromise g = None)"

definition consumer_ok :: "gen_cell list \<Rightarrow> consumer \<Rightarrow> bool" where
  "consumer_ok gs c \<longleftrightarrow>
     cell c < length gs \<and>
     index c \<le> length (sink (gs ! cell c)) \<and>
     out c = take (index c) (sink (gs ! cell c)) \<and>
     (case status c of
        Ready \<Rightarrow> True
      | Awaiting \<Rightarrow>
          index c = length (sink (gs ! cell c)) \<and> nextPromise (gs ! cell c) = Some Pending
      | Done \<Rightarrow> index c = length (sink (gs ! cell c)) \<and> completed (gs ! cell c)
      | Failed e \<Rightarrow>
          index c = length (sink (gs ! cell c)) \<and>
          nextPromise (gs ! cell c) = Some (Rejected e))"

definition gen_inv :: "store \<Rightarrow> bool" where
  "gen_inv s \<longleftrightarrow> list_all cell_ok (gen_cells s) \<and> list_all (consumer_ok (gen_cells s)) (consumers s)"

lemma consumer_ok_iff:
  "consumer_ok gs c \<longleftrightarrow>
     cell c < length gs \<and>
     index c \<le> length (sink (gs ! cell c)) \<and>
     out c = take (index c) (sink (gs ! cell c)) \<and>
     (status c = Awaiting \<longrightarrow>
        index c = length (sink (gs ! cell c)) \<and> nextPromise (gs ! cell c) = Some Pending) \<and>
     (status c = Done \<longrightarrow> index c = length (sink (gs ! cell c)) \<and> completed (gs ! cell c)) \<and>
     (\<forall>e. status c = Failed e \<longrightarrow>
        index c = length (sink (gs ! cell c)) \<and> nextPromise (gs ! cell c) = Some (Rejected e))"
  by (cases "status c") (auto simp: consumer_ok_def)

lemma memo_gen_cells:
  "\<exists>gs. gen_cells (snd (memo x s)) = gen_cells s @ gs \<and> list_all cell_ok gs"
  "\<exists>gs. gen_cells (snd (memo_list xs s)) = gen_cells s @ gs \<and> list_all cell_ok gs"
proof (induction x s and xs s rule: memo_memo_list.induct)
  case (7 g s)
  then show ?case by (simp add: Let_def new_gen_cell_def cell_ok_def)
qed (auto split: prod.splits simp: Let_def)

lemma memo_consumers:
  "consumers (snd (memo x s)) = consumers s"
  "consumers (snd (memo_list xs s)) = consumers s"
  by (induction x s and xs s rule: memo_memo_list.induct)
     (auto split: prod.splits simp: Let_def)

lemma consumer_ok_append:
  "consumer_ok gs c \<Longrightarrow> consumer_ok (gs @ gs') c"
  by (auto simp: consumer_ok_iff nth_append)

lemma gen_inv_memo: "gen_inv s \<Longrightarrow> gen_inv (snd (memo x s))"
  using memo_gen_cells(1)[of x s] memo_consumers(1)[of x s]
  by (auto simp: gen_inv_def list_all_iff consumer_ok_append)

lemma gen_inv_empty: "gen_inv empty_store"
  by (simp add: gen_inv_def empty_store_def)

lemma gen_inv_invoke: "gen_inv s \<longrightarrow> gen_inv (snd (invoke rf c s))"
proof (rule invoke_cases[where P = "\<lambda>rf c s res. gen_inv s \<longrightarrow> gen_inv (snd res)"], goal_cases)
  case (4 r c s e s1)
  then show ?case by (simp add: gen_inv_def)
next
  case (5 r c s v s1 m s2)
  have "gen_inv s1 \<Longrightarrow> gen_inv (set_memoized s2 r c m)"
    using gen_inv_memo[of s1 v] 5(6) by (simp add: gen_inv_def)
  with 5(5) show ?case by (simp add: gen_inv_def)
qed simp_all

lemma invoke_gen_cells:
  "(\<exists>gs. gen_cells (snd (invoke rf c s)) = gen_cells s @ gs) \<and>
   consumers (snd (invoke rf c s)) = consumers s"
proof (rule invoke_cases[where P = "\<lambda>rf c s res.
    (\<exists>gs. gen_cells (snd res) = gen_cells s @ gs) \<and> consumers (snd res) = consumers s"],
    goal_cases)
  case (4 r c s e s1)
  then show ?case by simp
next
  case (5 r c s v s1 m s2)
  from memo_gen_cells(1)[of v s1] memo_consumers(1)[of v s1] 5(6)
  obtain gs where "gen_cells s2 = gen_cells s1 @ gs" "consumers s2 = consumers s1" by auto
  with 5(5) show ?case by auto
qed simp_all

lemma gen_inv_subscribe: "gen_inv s \<Longrightarrow> gen_inv (subscribe r s)"
  by (auto simp: gen_inv_def subscribe_def consumer_ok_iff)


lemma gen_inv_resume: "gen_inv s \<Longrightarrow> gen_inv (resume k s)"
  unfolding gen_inv_def resume_def Let_def
  apply (simp split: option.splits promise.splits add: list_all_length nth_list_update)
  apply (intro conjI impI allI)
  apply (auto simp: consumer_ok_iff cell_ok_def nth_list_update take_Suc_conv_app_nth)
  done


lemma wake_length [simp]: "length (wake r st cs) = length cs"
  by (simp add: wake_def)

lemma wake_nth:
  "i < length cs \<Longrightarrow>
   wake r st cs ! i =
     (if cell (cs ! i) = r \<and> status (cs ! i) = Awaiting then (cs ! i)\<lparr>status := st\<rparr> else cs ! i)"
  by (simp add: wake_def)

lemma gen_inv_settle: "gen_inv s \<Longrightarrow> gen_inv (settle r s)"
proof (cases "r < length (gen_cells s) \<and> 0 < outstanding (gen_cells s ! r)")
  case False
  assume "gen_inv s"
  with False show ?thesis by (auto simp: settle_def)
next
  case True
  assume inv: "gen_inv s"
  let ?g = "gen_cells s ! r"
  from inv True have g: "cell_ok ?g" by (simp add: gen_inv_def list_all_length)
  with True have pend: "nextPromise ?g = Some Pending" "outstanding ?g = 1" "\<not> completed ?g"
    by (auto simp: cell_ok_def)
  show ?thesis
  proof (cases "generator ?g (pulls ?g - outstanding ?g)")
    case (Yield v)
    obtain m s1 where mm: "memo v s = (m, s1)" by (cases "memo v s")
    from gen_inv_memo[OF inv, of v] mm have inv1: "gen_inv s1" by simp
    obtain gs where gs: "gen_cells s1 = gen_cells s @ gs"
      using memo_gen_cells(1)[of v s] mm by auto
    have cs: "consumers s1 = consumers s" using memo_consumers(1)[of v s] mm by simp
    have g1: "gen_cells s1 ! r = ?g" using gs True by (simp add: nth_append)
    have r1: "r < length (gen_cells s1)" using gs True by simp
    have st: "settle r s = s1\<lparr>gen_cells := (gen_cells s1)
                     [r := ?g\<lparr>sink := sink ?g @ [m], nextPromise := None,
                             outstanding := outstanding ?g - 1\<rparr>],
                   consumers := wake r Ready (consumers s1)\<rparr>"
      using True Yield mm by (simp add: settle_def Let_def)
    show ?thesis
      unfolding st gen_inv_def
      using inv1 r1 g1 pend
      apply (simp add: gen_inv_def list_all_length nth_list_update wake_nth)
      apply (intro conjI impI allI)
      apply (auto simp: consumer_ok_iff cell_ok_def nth_list_update)
      done
  next
    case (Return v)
    have st: "settle r s = s\<lparr>gen_cells := (gen_cells s)
                  [r := ?g\<lparr>completed := True, nextPromise := None,
                          outstanding := outstanding ?g - 1\<rparr>],
               consumers := wake r Ready (consumers s)\<rparr>"
      using True Return by (simp add: settle_def Let_def)
    show ?thesis
      unfolding st gen_inv_def
      using inv True pend
      apply (simp add: gen_inv_def list_all_length nth_list_update wake_nth)
      apply (intro conjI impI allI)
      apply (auto simp: consumer_ok_iff cell_ok_def nth_list_update)
      done
  next
    case (Raise e)
    have st: "settle r s = s\<lparr>gen_cells := (gen_cells s)
                  [r := ?g\<lparr>nextPromise := Some (Rejected e), outstanding := outstanding ?g - 1\<rparr>],
               consumers := wake r (Failed e) (consumers s)\<rparr>"
      using True Raise by (simp add: settle_def Let_def)
    show ?thesis
      unfolding st gen_inv_def
      using inv True pend
      apply (simp add: gen_inv_def list_all_length nth_list_update wake_nth)
      apply (intro conjI impI allI)
      apply (auto simp: consumer_ok_iff cell_ok_def nth_list_update)
      done
  qed
qed

lemma gen_inv_step: "gen_inv s \<Longrightarrow> gen_inv (step e s)"
  using gen_inv_invoke
  by (cases e) (simp_all add: gen_inv_memo gen_inv_subscribe gen_inv_resume gen_inv_settle)

lemma gen_inv_run: "gen_inv s \<Longrightarrow> gen_inv (run es s)"
  by (induction es arbitrary: s) (simp_all add: gen_inv_step)

subsection \<open>How often a memoized element is rendered\<close>

lemma settle_elem_cells:
  "(\<exists>cs. elem_cells (settle r s) = elem_cells s @ cs) \<and> trace (settle r s) = trace s"
proof (cases "r < length (gen_cells s) \<and> 0 < outstanding (gen_cells s ! r)")
  case False
  then show ?thesis by (auto simp: settle_def)
next
  case True
  show ?thesis
  proof (cases "generator (gen_cells s ! r) (pulls (gen_cells s ! r) - outstanding (gen_cells s ! r))")
    case (Yield v)
    obtain m s1 where mm: "memo v s = (m, s1)" by (cases "memo v s")
    from memo_elem_cells(1)[of v s] memo_trace(1)[of v s] mm
    obtain cs where "elem_cells s1 = elem_cells s @ cs" "trace s1 = trace s" by auto
    with True Yield mm show ?thesis by (simp add: settle_def Let_def)
  next
    case (Return v)
    with True show ?thesis by (simp add: settle_def Let_def)
  next
    case (Raise e)
    with True show ?thesis by (simp add: settle_def Let_def)
  qed
qed

lemma stored_append:
  "stored s r c m \<Longrightarrow> elem_cells s' = elem_cells s @ cs \<Longrightarrow> stored s' r c m"
  by (auto simp: stored_def nth_append)

lemma stored_step:
  assumes "stored s r c m"
  shows "stored (step e s) r c m \<and>
         count_list (trace (step e s)) (r, c) = count_list (trace s) (r, c)"
proof (cases e)
  case (MemoNode x)
  with assms show ?thesis by (simp add: stored_after_memo memo_trace)
next
  case (Render rf c')
  with stored_after_invoke[OF assms, of rf c'] show ?thesis by simp
next
  case (Subscribe r')
  with assms show ?thesis by (auto simp: subscribe_def stored_def)
next
  case (Resume k)
  have "elem_cells (resume k s) = elem_cells s" "trace (resume k s) = trace s"
    by (auto simp: resume_def Let_def split: option.splits promise.splits)
  with assms Resume show ?thesis by (simp add: stored_def)
next
  case (Settle r')
  from settle_elem_cells[of r' s]
  obtain cs where "elem_cells (settle r' s) = elem_cells s @ cs" "trace (settle r' s) = trace s"
    by auto
  with assms Settle stored_append[OF assms this(1)] show ?thesis by simp
qed

lemma stored_run:
  "stored s r c m \<Longrightarrow>
   stored (run es s) r c m \<and>
   count_list (trace (run es s)) (r, c) = count_list (trace s) (r, c)"
proof (induction es arbitrary: s)
  case Nil
  then show ?case by simp
next
  case (Cons e es)
  from stored_step[OF Cons.prems, of e] Cons.IH[of "step e s"] show ?case by simp
qed

text \<open>
  The part of claim C2 that holds on the code. One call through the memo wrapper \<open>r\<close>
  under the context \<open>c\<close> evaluates the wrapped render under \<open>c\<close> at most once. When the
  call returns \<open>m\<close>: if nothing was stored for \<open>c\<close>, it evaluated the wrapped render
  exactly once and \<open>m\<close> is the \<^verbatim>\<open>memo\<close> of what the wrapped render returned; \<open>m\<close> is
  stored under \<open>c\<close>; and after any further events, a call under \<open>c\<close> returns \<open>m\<close>,
  changes nothing in the store, and the wrapped render has not been evaluated under \<open>c\<close>
  again.
\<close>

lemma memo_render_returns:
  "count_list (trace (snd (invoke (MemoRender r) c s))) (r, c) \<le> count_list (trace s) (r, c) + 1 \<and>
   (invoke (MemoRender r) c s = (Inr m, s') \<longrightarrow>
      (memoizedValues (elem_cells s ! r) c = None \<longrightarrow>
         count_list (trace s') (r, c) = count_list (trace s) (r, c) + 1 \<and>
         (\<exists>v s1. invoke (inner (elem_cells s ! r)) c (s\<lparr>trace := trace s @ [(r, c)]\<rparr>) = (Inr v, s1) \<and>
                 m = fst (memo v s1))) \<and>
      memoizedValues (elem_cells s' ! r) c = Some m \<and>
      invoke (MemoRender r) c (run es s') = (Inr m, run es s') \<and>
      count_list (trace (run es s')) (r, c) = count_list (trace s') (r, c))"
proof (intro conjI impI)
  show "count_list (trace (snd (invoke (MemoRender r) c s))) (r, c) \<le> count_list (trace s) (r, c) + 1"
    by (rule invoke_count_le)
next
  assume ret: "invoke (MemoRender r) c s = (Inr m, s')"
  note st = invoke_returns(1)[OF ret]
  from st show "memoizedValues (elem_cells s' ! r) c = Some m" by (simp add: stored_def)
  from stored_run[OF st, of es] stored_invoke_hit[of "run es s'" r c m]
  show "invoke (MemoRender r) c (run es s') = (Inr m, run es s')"
    and "count_list (trace (run es s')) (r, c) = count_list (trace s') (r, c)" by simp_all
  assume "memoizedValues (elem_cells s ! r) c = None"
  from invoke_returns(3)[OF ret this]
  show "count_list (trace s') (r, c) = count_list (trace s) (r, c) + 1"
    and "\<exists>v s1. invoke (inner (elem_cells s ! r)) c (s\<lparr>trace := trace s @ [(r, c)]\<rparr>) = (Inr v, s1) \<and>
                 m = fst (memo v s1)" by simp_all
qed

text \<open>
  Where the code departs from the claim. Lines 32 to 34 have no \<^verbatim>\<open>try\<close>: when the wrapped
  render throws, \<^verbatim>\<open>memoizedValues.set\<close> is not reached, so the closure holds nothing for
  \<open>c\<close> after the call, and the next call under \<open>c\<close> evaluates the wrapped render once
  more. A failure that arrives as a value is kept like any other value: a render that
  returns a rejected promise has that promise stored by \<open>memo_render_returns\<close>.
\<close>

lemma memo_render_throws:
  assumes "r < length (elem_cells s)" and "older (inner (elem_cells s ! r)) r"
    and "memoizedValues (elem_cells s ! r) c = None"
    and "invoke (MemoRender r) c s = (Inl e, s')"
  shows "memoizedValues (elem_cells s' ! r) c = None"
    and "count_list (trace (snd (invoke (MemoRender r) c s'))) (r, c) =
         count_list (trace s') (r, c) + 1"
proof -
  note th = invoke_throws[OF assms]
  from th(2) assms(3) show none: "memoizedValues (elem_cells s' ! r) c = None" by simp
  from th(2) assms(2) have "older (inner (elem_cells s' ! r)) r" by simp
  from invoke_miss_count[OF th(1) this none]
  show "count_list (trace (snd (invoke (MemoRender r) c s'))) (r, c) =
        count_list (trace s') (r, c) + 1" .
qed

text \<open>
  Three components to run the model on: one that returns a string, one that throws when
  it is called, and an \<^verbatim>\<open>async\<close> one that throws, which is to say that it returns a
  rejected promise; and a generator whose first \<^verbatim>\<open>next()\<close> rejects.
\<close>

definition ok_element :: node where
  "ok_element =
     Element (Component ''Greet'') \<lparr>isMemoized = False, ident = None, other = []\<rparr> []
       (Fn (\<lambda>c. Inr (Scalar (Str ''hi''))))"

definition failing_element :: node where
  "failing_element =
     Element (Component ''Boom'') \<lparr>isMemoized = False, ident = None, other = []\<rparr> []
       (Fn (\<lambda>c. Inl (TypeError ''boom'')))"

definition rejecting_element :: node where
  "rejecting_element =
     Element (Component ''AsyncBoom'') \<lparr>isMemoized = False, ident = None, other = []\<rparr> []
       (Fn (\<lambda>c. Inr (Promise (Inl (TypeError ''boom'')))))"

definition failing_generator :: "nat \<Rightarrow> node iter_result" where
  "failing_generator k = Raise (TypeError ''boom'')"

text \<open>
  Claim C2, at a component that throws when it is called. Its memoized form is rendered
  twice under the context 0: the first call throws and stores nothing, and the second
  call evaluates the component a second time, where the claim allows one evaluation.

  The same two calls evaluate the two other components once: the one that returns, and
  the \<^verbatim>\<open>async\<close> one, whose rejected promise is stored at the first call and returned by
  the second. The generator branch of \<^verbatim>\<open>memo\<close> keeps a failure as well: after the
  first \<^verbatim>\<open>next()\<close> has rejected, a second iterator fails with the same error and
  \<^verbatim>\<open>next()\<close> has still been called once.
\<close>

theorem memo_render_throws_twice:
  "invoke (MemoRender 0) 0 (snd (memo failing_element empty_store)) =
     (Inl (TypeError ''boom''),
      run [Render (MemoRender 0) 0] (snd (memo failing_element empty_store))) \<and>
   memoizedValues
     (elem_cells (run [Render (MemoRender 0) 0] (snd (memo failing_element empty_store))) ! 0) 0 =
     None \<and>
   count_list
     (trace (run [Render (MemoRender 0) 0, Render (MemoRender 0) 0]
        (snd (memo failing_element empty_store)))) (0, 0) = 2 \<and>
   count_list
     (trace (run [Render (MemoRender 0) 0, Render (MemoRender 0) 0]
        (snd (memo ok_element empty_store)))) (0, 0) = 1 \<and>
   memoizedValues
     (elem_cells (run [Render (MemoRender 0) 0] (snd (memo rejecting_element empty_store))) ! 0) 0 =
     Some (Element MemoizedPromise (memo_props 2) []
             (Fn (\<lambda>_. Inr (Promise (Inl (TypeError ''boom'')))))) \<and>
   count_list
     (trace (run [Render (MemoRender 0) 0, Render (MemoRender 0) 0]
        (snd (memo rejecting_element empty_store)))) (0, 0) = 1 \<and>
   status (consumers
     (run [Subscribe 0, Resume 0, Settle 0, Subscribe 0, Resume 1]
        (snd (memo (Generator failing_generator) empty_store))) ! 1) =
     Failed (TypeError ''boom'') \<and>
   pulls (gen_cells
     (run [Subscribe 0, Resume 0, Settle 0, Subscribe 0, Resume 1]
        (snd (memo (Generator failing_generator) empty_store))) ! 0) = 1"
  by (simp add: failing_element_def ok_element_def rejecting_element_def empty_store_def
        Let_def set_memoized_def numeral_2_eq_2 failing_generator_def subscribe_def
        resume_def settle_def wake_def new_gen_cell_def)


subsection \<open>The frames that the iterators yield\<close>

lemma step_sink:
  assumes "r < length (gen_cells s)"
  shows "r < length (gen_cells (step e s)) \<and>
         prefix (sink (gen_cells s ! r)) (sink (gen_cells (step e s) ! r))"
proof (cases e)
  case (MemoNode x)
  obtain gs where "gen_cells (snd (memo x s)) = gen_cells s @ gs"
    using memo_gen_cells(1)[of x s] by auto
  with assms MemoNode show ?thesis by (simp add: nth_append)
next
  case (Render rf c)
  obtain gs where "gen_cells (snd (invoke rf c s)) = gen_cells s @ gs"
    using invoke_gen_cells[of rf c s] by auto
  with assms Render show ?thesis by (simp add: nth_append)
next
  case (Subscribe r')
  with assms show ?thesis by (simp add: subscribe_def)
next
  case (Resume k)
  with assms show ?thesis
    by (auto simp: resume_def Let_def nth_list_update split: option.splits promise.splits)
next
  case (Settle r')
  show ?thesis
  proof (cases "r' < length (gen_cells s) \<and> 0 < outstanding (gen_cells s ! r')")
    case False
    with assms Settle show ?thesis by (auto simp: settle_def)
  next
    case True
    show ?thesis
    proof (cases "generator (gen_cells s ! r') (pulls (gen_cells s ! r') - outstanding (gen_cells s ! r'))")
      case (Yield v)
      obtain m s1 where mm: "memo v s = (m, s1)" by (cases "memo v s")
      obtain gs where gs: "gen_cells s1 = gen_cells s @ gs"
        using memo_gen_cells(1)[of v s] mm by auto
      from assms True Settle Yield mm gs show ?thesis
        by (auto simp: settle_def Let_def nth_list_update nth_append)
    next
      case (Return v)
      with assms True Settle show ?thesis
        by (auto simp: settle_def Let_def nth_list_update)
    next
      case (Raise e')
      with assms True Settle show ?thesis
        by (auto simp: settle_def Let_def nth_list_update)
    qed
  qed
qed

lemma run_sink:
  "r < length (gen_cells s) \<Longrightarrow>
   r < length (gen_cells (run es s)) \<and>
   prefix (sink (gen_cells s ! r)) (sink (gen_cells (run es s) ! r))"
proof (induction es arbitrary: s)
  case Nil
  then show ?case by simp
next
  case (Cons e es)
  from step_sink[OF Cons.prems, of e]
  have a: "r < length (gen_cells (step e s))"
    and b: "prefix (sink (gen_cells s ! r)) (sink (gen_cells (step e s) ! r))" by auto
  from Cons.IH[OF a] b show ?case by (auto intro: prefix_order.trans)
qed

lemma step_consumer:
  assumes "j < length (consumers s)"
  shows "j < length (consumers (step e s)) \<and>
         cell (consumers (step e s) ! j) = cell (consumers s ! j)"
proof (cases e)
  case (MemoNode x)
  with assms show ?thesis by (simp add: memo_consumers)
next
  case (Render rf c)
  with assms show ?thesis by (simp add: invoke_gen_cells)
next
  case (Subscribe r')
  with assms show ?thesis by (simp add: subscribe_def nth_append)
next
  case (Resume k)
  with assms show ?thesis
    by (auto simp: resume_def Let_def nth_list_update split: option.splits promise.splits)
next
  case (Settle r')
  show ?thesis
  proof (cases "r' < length (gen_cells s) \<and> 0 < outstanding (gen_cells s ! r')")
    case False
    with assms Settle show ?thesis by (auto simp: settle_def)
  next
    case True
    show ?thesis
    proof (cases "generator (gen_cells s ! r') (pulls (gen_cells s ! r') - outstanding (gen_cells s ! r'))")
      case (Yield v)
      obtain m s1 where mm: "memo v s = (m, s1)" by (cases "memo v s")
      have cs: "consumers s1 = consumers s" using memo_consumers(1)[of v s] mm by simp
      from assms True Settle Yield mm cs show ?thesis
        by (auto simp: settle_def Let_def wake_nth)
    next
      case (Return v)
      with assms True Settle show ?thesis
        by (auto simp: settle_def Let_def wake_nth)
    next
      case (Raise e')
      with assms True Settle show ?thesis
        by (auto simp: settle_def Let_def wake_nth)
    qed
  qed
qed

lemma run_consumer:
  "j < length (consumers s) \<Longrightarrow>
   j < length (consumers (run es s)) \<and>
   cell (consumers (run es s) ! j) = cell (consumers s ! j)"
proof (induction es arbitrary: s)
  case Nil
  then show ?case by simp
next
  case (Cons e es)
  from step_consumer[OF Cons.prems, of e] Cons.IH[of "step e s"] show ?case by auto
qed

lemma gen_inv_consumer:
  assumes "gen_inv t" "k < length (consumers t)"
  shows "consumer_ok (gen_cells t) (consumers t ! k)"
  using assms by (simp add: gen_inv_def list_all_length)



subsection \<open>One pending call of the underlying generator\<close>

text \<open>
  The one event that calls \<^verbatim>\<open>generator.next()\<close> of the closure \<open>r\<close>: an iterator of \<open>r\<close>
  runs, it has yielded the whole buffer, the generator is not completed and no call is
  pending.
\<close>

definition starts_pull :: "store \<Rightarrow> event \<Rightarrow> ref \<Rightarrow> bool" where
  "starts_pull t e r \<longleftrightarrow>
     (case e of
        Resume k \<Rightarrow>
          k < length (consumers t) \<and> cell (consumers t ! k) = r \<and>
          status (consumers t ! k) = Ready \<and>
          index (consumers t ! k) = length (sink (gen_cells t ! r)) \<and>
          \<not> completed (gen_cells t ! r) \<and> nextPromise (gen_cells t ! r) = None \<and>
          outstanding (gen_cells t ! r) = 0
      | _ \<Rightarrow> False)"

lemma step_pulls:
  assumes "gen_inv t" and "r < length (gen_cells t)"
  shows "(if starts_pull t e r
          then pulls (gen_cells (step e t) ! r) = pulls (gen_cells t ! r) + 1 \<and>
               outstanding (gen_cells (step e t) ! r) = 1
          else pulls (gen_cells (step e t) ! r) = pulls (gen_cells t ! r) \<and>
               outstanding (gen_cells (step e t) ! r) \<le> outstanding (gen_cells t ! r))"
proof (cases e)
  case (MemoNode x)
  obtain gs where "gen_cells (snd (memo x t)) = gen_cells t @ gs"
    using memo_gen_cells(1)[of x t] by auto
  with assms MemoNode show ?thesis by (simp add: nth_append starts_pull_def)
next
  case (Render rf c)
  obtain gs where "gen_cells (snd (invoke rf c t)) = gen_cells t @ gs"
    using invoke_gen_cells[of rf c t] by auto
  with assms Render show ?thesis by (simp add: nth_append starts_pull_def)
next
  case (Subscribe r')
  then show ?thesis by (simp add: subscribe_def starts_pull_def)
next
  case (Resume k)
  show ?thesis
  proof (cases "k < length (consumers t)")
    case False
    with Resume show ?thesis by (simp add: resume_def starts_pull_def)
  next
    case True
    from gen_inv_consumer[OF assms(1) True]
    have ok: "consumer_ok (gen_cells t) (consumers t ! k)" .
    have cok: "cell_ok (gen_cells t ! r)"
      using assms by (simp add: gen_inv_def list_all_length)
    from ok cok assms(2) True Resume show ?thesis
      by (auto simp: resume_def starts_pull_def Let_def nth_list_update consumer_ok_iff
            cell_ok_def split: option.splits promise.splits)
  qed
next
  case (Settle r')
  show ?thesis
  proof (cases "r' < length (gen_cells t) \<and> 0 < outstanding (gen_cells t ! r')")
    case False
    with assms Settle show ?thesis by (auto simp: settle_def starts_pull_def)
  next
    case True
    show ?thesis
    proof (cases "generator (gen_cells t ! r') (pulls (gen_cells t ! r') - outstanding (gen_cells t ! r'))")
      case (Yield v)
      obtain m s1 where mm: "memo v t = (m, s1)" by (cases "memo v t")
      obtain gs where gs: "gen_cells s1 = gen_cells t @ gs"
        using memo_gen_cells(1)[of v t] mm by auto
      from assms True Settle Yield mm gs show ?thesis
        by (auto simp: settle_def Let_def nth_list_update nth_append starts_pull_def)
    next
      case (Return v)
      with assms True Settle show ?thesis
        by (auto simp: settle_def Let_def nth_list_update starts_pull_def)
    next
      case (Raise e')
      with assms True Settle show ?thesis
        by (auto simp: settle_def Let_def nth_list_update starts_pull_def)
    qed
  qed
qed


text \<open>
  Claim C4. From a consistent store and after any interleaving of events: every memoized
  generator has at most one call of the underlying \<^verbatim>\<open>next\<close> that has not settled, and it
  has one exactly when \<^verbatim>\<open>nextPromise\<close> holds a pending promise; the next event makes a
  new call only when an iterator that has yielded the whole buffer runs while the
  generator is not completed and no call is pending, and then it makes exactly one; and
  every iterator that awaits a frame awaits that one pending call.
\<close>

theorem memoized_generator_one_pull:
  assumes "gen_inv s"
  shows "let t = run es s in
           (\<forall>r < length (gen_cells t).
              outstanding (gen_cells t ! r) \<le> 1 \<and>
              (outstanding (gen_cells t ! r) = 1) = (nextPromise (gen_cells t ! r) = Some Pending) \<and>
              (if starts_pull t e r
               then pulls (gen_cells (step e t) ! r) = pulls (gen_cells t ! r) + 1 \<and>
                    outstanding (gen_cells (step e t) ! r) = 1
               else pulls (gen_cells (step e t) ! r) = pulls (gen_cells t ! r) \<and>
                    outstanding (gen_cells (step e t) ! r) \<le> outstanding (gen_cells t ! r))) \<and>
           (\<forall>k < length (consumers t).
              status (consumers t ! k) = Awaiting \<longrightarrow>
                nextPromise (gen_cells t ! cell (consumers t ! k)) = Some Pending \<and>
                outstanding (gen_cells t ! cell (consumers t ! k)) = 1)"
proof -
  have invt: "gen_inv (run es s)" using assms by (rule gen_inv_run)
  have cells: "\<And>r. r < length (gen_cells (run es s)) \<Longrightarrow> cell_ok (gen_cells (run es s) ! r)"
    using invt by (simp add: gen_inv_def list_all_length)
  have a: "\<And>r. r < length (gen_cells (run es s)) \<Longrightarrow>
      outstanding (gen_cells (run es s) ! r) \<le> 1 \<and>
      (outstanding (gen_cells (run es s) ! r) = 1) =
        (nextPromise (gen_cells (run es s) ! r) = Some Pending)"
    using cells by (simp add: cell_ok_def)
  have b: "\<And>k. k < length (consumers (run es s)) \<Longrightarrow>
      status (consumers (run es s) ! k) = Awaiting \<Longrightarrow>
      nextPromise (gen_cells (run es s) ! cell (consumers (run es s) ! k)) = Some Pending \<and>
      outstanding (gen_cells (run es s) ! cell (consumers (run es s) ! k)) = 1"
  proof -
    fix k assume k: "k < length (consumers (run es s))"
      and aw: "status (consumers (run es s) ! k) = Awaiting"
    from gen_inv_consumer[OF invt k] aw
    have c: "cell (consumers (run es s) ! k) < length (gen_cells (run es s))"
      and p: "nextPromise (gen_cells (run es s) ! cell (consumers (run es s) ! k)) = Some Pending"
      by (auto simp: consumer_ok_iff)
    from a[OF c] p
    show "nextPromise (gen_cells (run es s) ! cell (consumers (run es s) ! k)) = Some Pending \<and>
      outstanding (gen_cells (run es s) ! cell (consumers (run es s) ! k)) = 1" by simp
  qed
  show ?thesis
    unfolding Let_def using a b step_pulls[OF invt, of _ e] by blast
qed

theorem memoized_generator_one_pull_witness:
  "gen_inv (snd (memo (Generator three_frames) empty_store)) \<and>
   status (consumers two_waiting ! 0) = Awaiting \<and>
   status (consumers two_waiting ! 1) = Awaiting \<and>
   pulls (gen_cells two_waiting ! 0) = 1 \<and>
   outstanding (gen_cells two_waiting ! 0) \<le> 1 \<and>
   nextPromise (gen_cells two_waiting ! 0) = Some Pending \<and>
   pulls (gen_cells (step (Subscribe 0) two_waiting) ! 0) = pulls (gen_cells two_waiting ! 0)"
proof -
  have h: "gen_inv (snd (memo (Generator three_frames) empty_store))"
    by (simp add: machine_defs gen_inv_def cell_ok_def)
  have tw: "two_waiting = run [Subscribe 0, Subscribe 0, Resume 0, Resume 1]
       (snd (memo (Generator three_frames) empty_store))"
    by (simp add: two_waiting_def)
  have ev: "length (gen_cells two_waiting) = 1" "length (consumers two_waiting) = 2"
    "status (consumers two_waiting ! 0) = Awaiting"
    "status (consumers two_waiting ! 1) = Awaiting"
    "cell (consumers two_waiting ! 1) = 0"
    "pulls (gen_cells two_waiting ! 0) = 1"
    "\<not> starts_pull two_waiting (Subscribe 0) 0"
    by (simp_all add: two_waiting_def machine_defs three_frames_def starts_pull_def)
  from memoized_generator_one_pull[OF h, of "[Subscribe 0, Subscribe 0, Resume 0, Resume 1]"
      "Subscribe 0"]
  have a: "\<forall>r < length (gen_cells two_waiting).
              outstanding (gen_cells two_waiting ! r) \<le> 1 \<and>
              (outstanding (gen_cells two_waiting ! r) = 1) =
                (nextPromise (gen_cells two_waiting ! r) = Some Pending) \<and>
              (if starts_pull two_waiting (Subscribe 0) r
               then pulls (gen_cells (step (Subscribe 0) two_waiting) ! r) =
                      pulls (gen_cells two_waiting ! r) + 1 \<and>
                    outstanding (gen_cells (step (Subscribe 0) two_waiting) ! r) = 1
               else pulls (gen_cells (step (Subscribe 0) two_waiting) ! r) =
                      pulls (gen_cells two_waiting ! r) \<and>
                    outstanding (gen_cells (step (Subscribe 0) two_waiting) ! r)
                      \<le> outstanding (gen_cells two_waiting ! r))"
    and b: "\<forall>k < length (consumers two_waiting).
              status (consumers two_waiting ! k) = Awaiting \<longrightarrow>
                nextPromise (gen_cells two_waiting ! cell (consumers two_waiting ! k)) = Some Pending \<and>
                outstanding (gen_cells two_waiting ! cell (consumers two_waiting ! k)) = 1"
    unfolding Let_def tw[symmetric] by blast+
  from a ev(1,7) have a0: "outstanding (gen_cells two_waiting ! 0) \<le> 1"
    "pulls (gen_cells (step (Subscribe 0) two_waiting) ! 0) = pulls (gen_cells two_waiting ! 0)"
    by auto
  have "1 < length (consumers two_waiting)" by (simp add: ev(2))
  from b[rule_format, OF this ev(4)] have b1: "nextPromise (gen_cells two_waiting ! 0) = Some Pending"
    unfolding ev(5) by blast
  from h ev(3,4,6) a0 b1 show ?thesis by blast
qed


section \<open>Return values and render contexts\<close>

text \<open>
  Iterating an async generator itself, as \<^verbatim>\<open>for await\<close> or the renderer does: the values
  it yields, and what the last \<^verbatim>\<open>next()\<close> settled to: the return value, or what was
  thrown. With \<open>n\<close> calls of \<^verbatim>\<open>next()\<close> allowed, \<open>None\<close> says the generator has not ended
  within them.
\<close>

fun iterate :: "nat \<Rightarrow> (nat \<Rightarrow> node iter_result) \<Rightarrow> nat \<Rightarrow> node list \<times> (thrown + node) option" where
  "iterate 0 g i = ([], None)"
| "iterate (Suc n) g i =
     (case g i of
        Yield v \<Rightarrow> (case iterate n g (Suc i) of (fs, r) \<Rightarrow> (v # fs, r))
      | Return v \<Rightarrow> ([], Some (Inr v))
      | Raise e \<Rightarrow> ([], Some (Inl e)))"

text \<open>
  What an iterator of \<^verbatim>\<open>MemoizedGenerator\<close> ends with. The function has no \<^verbatim>\<open>return\<close>
  statement: after the \<^verbatim>\<open>break\<close> of line 66 it ends, and the iterator result is
  \<^verbatim>\<open>{done: true, value: undefined}\<close>.
\<close>

definition iterator_return :: "consumer \<Rightarrow> (thrown + node) option" where
  "iterator_return c =
     (case status c of
        Done \<Rightarrow> Some (Inr (Scalar Undefined))
      | Failed e \<Rightarrow> Some (Inl e)
      | _ \<Rightarrow> None)"

text \<open>
  What the renderer gets when it calls the \<^verbatim>\<open>render\<close> of an element with a context. The
  tag of line 82 is \<^verbatim>\<open>MemoizedGenerator\<close>, a function that takes no argument: whatever
  the context, the call makes a new iterator over the one closure state.
\<close>

datatype rendered = Returned node | Threw thrown | Iterator nat | NotAnElement

fun render_element :: "node \<Rightarrow> ctx \<Rightarrow> store \<Rightarrow> rendered \<times> store" where
  "render_element (Element t p ch rf) c s =
     (case invoke rf c s of
        (Inl e, s') \<Rightarrow> (Threw e, s')
      | (Inr v, s') \<Rightarrow> (Returned v, s'))"
| "render_element (MemoizedGenerator n r) c s = (Iterator (length (consumers s)), subscribe r s)"
| "render_element x c s = (NotAnElement, s)"

text \<open>
  The memoized generator of three frames, rendered under the context 1 and iterated to
  its end, then rendered under the context 2 and iterated to its end.
\<close>

definition memoized_three :: node where
  "memoized_three = fst (memo (Generator three_frames) empty_store)"

definition drained_ctx1 :: store where
  "drained_ctx1 =
     run [Resume 0, Settle 0, Resume 0, Resume 0, Settle 0, Resume 0, Resume 0, Settle 0, Resume 0]
       (snd (render_element memoized_three 1 (snd (memo (Generator three_frames) empty_store))))"

definition drained_ctx2 :: store where
  "drained_ctx2 =
     run [Resume 1, Resume 1, Resume 1] (snd (render_element memoized_three 2 drained_ctx1))"


subsection \<open>A second iterator replays the buffer\<close>

lemma run_append: "run (es @ es') s = run es' (run es s)"
  by (induction es arbitrary: s) simp_all

text \<open>
  An iterator that has just been made takes its first \<open>j\<close> values from the buffer, one at
  each turn, and these turns change nothing else in the store: no \<^verbatim>\<open>next()\<close> is called.
\<close>

lemma replay_buffered:
  assumes "k < length (consumers s)" and "g < length (gen_cells s)"
    and "consumers s ! k = \<lparr>cell = g, index = 0, status = Ready, out = []\<rparr>"
  shows "j \<le> length (sink (gen_cells s ! g)) \<Longrightarrow>
         run (replicate j (Resume k)) s =
           s\<lparr>consumers := (consumers s)
               [k := \<lparr>cell = g, index = j, status = Ready,
                      out = take j (sink (gen_cells s ! g))\<rparr>]\<rparr>"
proof (induction j)
  case 0
  have "(consumers s)[k := consumers s ! k] = consumers s" by (rule list_update_id)
  with assms(3) show ?case by simp
next
  case (Suc j)
  let ?t = "s\<lparr>consumers := (consumers s)
               [k := \<lparr>cell = g, index = j, status = Ready,
                      out = take j (sink (gen_cells s ! g))\<rparr>]\<rparr>"
  from Suc have IH: "run (replicate j (Resume k)) s = ?t" by simp
  have "run (replicate (Suc j) (Resume k)) s = run (replicate j (Resume k) @ [Resume k]) s"
    by (simp only: replicate_append_same replicate_Suc)
  also have "\<dots> = resume k ?t" by (simp add: run_append IH)
  also have "\<dots> = s\<lparr>consumers := (consumers s)
               [k := \<lparr>cell = g, index = Suc j, status = Ready,
                      out = take (Suc j) (sink (gen_cells s ! g))\<rparr>]\<rparr>"
    using assms(1,2) Suc.prems by (simp add: resume_def Let_def take_Suc_conv_app_nth)
  finally show ?case .
qed

text \<open>Once \<^verbatim>\<open>completed\<close> is set, no event changes the closure state of the generator.\<close>

lemma step_completed:
  assumes "gen_inv t" and "g < length (gen_cells t)" and "completed (gen_cells t ! g)"
  shows "gen_cells (step e t) ! g = gen_cells t ! g"
proof (cases e)
  case (MemoNode x)
  obtain gs where "gen_cells (snd (memo x t)) = gen_cells t @ gs"
    using memo_gen_cells(1)[of x t] by auto
  with assms MemoNode show ?thesis by (simp add: nth_append)
next
  case (Render rf c)
  obtain gs where "gen_cells (snd (invoke rf c t)) = gen_cells t @ gs"
    using invoke_gen_cells[of rf c t] by auto
  with assms Render show ?thesis by (simp add: nth_append)
next
  case (Subscribe r')
  then show ?thesis by (simp add: subscribe_def)
next
  case (Resume k)
  with assms show ?thesis
    by (auto simp: resume_def Let_def nth_list_update split: option.splits promise.splits)
next
  case (Settle r')
  have cok: "cell_ok (gen_cells t ! g)"
    using assms by (simp add: gen_inv_def list_all_length)
  with assms(3) have idle: "outstanding (gen_cells t ! g) = 0" by (auto simp: cell_ok_def)
  show ?thesis
  proof (cases "r' < length (gen_cells t) \<and> 0 < outstanding (gen_cells t ! r')")
    case False
    with Settle show ?thesis by (auto simp: settle_def)
  next
    case True
    with idle have ne: "r' \<noteq> g" by auto
    show ?thesis
    proof (cases "generator (gen_cells t ! r') (pulls (gen_cells t ! r') - outstanding (gen_cells t ! r'))")
      case (Yield v)
      obtain m s1 where mm: "memo v t = (m, s1)" by (cases "memo v t")
      obtain gs where gs: "gen_cells s1 = gen_cells t @ gs"
        using memo_gen_cells(1)[of v t] mm by auto
      from assms True Settle Yield mm gs ne show ?thesis
        by (auto simp: settle_def Let_def nth_list_update nth_append)
    next
      case (Return v)
      with assms True Settle ne show ?thesis
        by (auto simp: settle_def Let_def nth_list_update)
    next
      case (Raise e')
      with assms True Settle ne show ?thesis
        by (auto simp: settle_def Let_def nth_list_update)
    qed
  qed
qed

lemma run_completed:
  "gen_inv t \<Longrightarrow> g < length (gen_cells t) \<Longrightarrow> completed (gen_cells t ! g) \<Longrightarrow>
   gen_cells (run es t) ! g = gen_cells t ! g"
proof (induction es arbitrary: t)
  case Nil
  then show ?case by simp
next
  case (Cons e es)
  from step_completed[OF Cons.prems, of e]
  have eq: "gen_cells (step e t) ! g = gen_cells t ! g" .
  from step_sink[OF Cons.prems(2), of e] have lt: "g < length (gen_cells (step e t))" by simp
  from Cons.IH[OF gen_inv_step[OF Cons.prems(1)] lt] eq Cons.prems(3) show ?case by simp
qed

text \<open>
  Claim C5, as amended. The memoization of an element is scoped by the render context:
  when the memo wrapper \<open>r\<close> holds no value for the context \<open>c2\<close>, then after a call
  under another context \<open>c1\<close>, a call under \<open>c2\<close> evaluates the wrapped render under
  \<open>c2\<close>.

  A memoized eventual is not scoped by the context: under every context and in every
  store, its render returns the one promise that \<^verbatim>\<open>renderable.then(memo)\<close> made, and
  changes nothing in the store.

  A memoized lazy producer is not scoped by the context either. Let it be rendered under
  \<open>c1\<close> in a consistent store, let any events \<open>es\<close> follow, and let it be rendered under
  \<open>c2\<close>. The second rendering is a new iterator, it starts at index 0 of the same closure
  state as the first, and making it changes nothing else in the store. In its first
  turns it yields the frames buffered so far, in their order, and nothing else in the
  store changes: the generator is not called. After any further events \<open>es'\<close>, both
  iterators have yielded a prefix of the one buffer, which has only grown. And when the
  generator was completed before the second rendering, its closure state is never
  changed again: the work done under \<open>c1\<close> is not done a second time under \<open>c2\<close>.
\<close>

theorem memo_scope:
  assumes "r < length (elem_cells s)" and "older (inner (elem_cells s ! r)) r"
    and "memoizedValues (elem_cells s ! r) c2 = None" and "c1 \<noteq> c2"
    and "gen_inv t" and "g < length (gen_cells t)"
  shows "count_list (trace (snd (invoke (MemoRender r) c2 (snd (invoke (MemoRender r) c1 s))))) (r, c2) =
           count_list (trace (snd (invoke (MemoRender r) c1 s))) (r, c2) + 1 \<and>
         render_element (fst (memo (Promise (Inl e)) s0)) c u = (Returned (Promise (Inl e)), u) \<and>
         render_element (fst (memo (Promise (Inr v)) s0)) c u =
           (Returned (Promise (Inr (fst (memo v (s0\<lparr>memoizedId := memoizedId s0 + 1\<rparr>))))), u) \<and>
         (let first = length (consumers t);
              t1 = run es (snd (render_element (MemoizedGenerator n g) c1 t));
              second = length (consumers t1);
              buffered = sink (gen_cells t1 ! g);
              t2 = snd (render_element (MemoizedGenerator n g) c2 t1);
              t3 = run es' t2
          in fst (render_element (MemoizedGenerator n g) c1 t) = Iterator first \<and>
             fst (render_element (MemoizedGenerator n g) c2 t1) = Iterator second \<and>
             first < second \<and>
             t2 = t1\<lparr>consumers := consumers t1 @ [\<lparr>cell = g, index = 0, status = Ready, out = []\<rparr>]\<rparr> \<and>
             (j \<le> length buffered \<longrightarrow>
                run (replicate j (Resume second)) t2 =
                  t2\<lparr>consumers := (consumers t2)
                       [second := \<lparr>cell = g, index = j, status = Ready, out = take j buffered\<rparr>]\<rparr>) \<and>
             second < length (consumers t3) \<and>
             cell (consumers t3 ! first) = g \<and> cell (consumers t3 ! second) = g \<and>
             out (consumers t3 ! first) =
               take (index (consumers t3 ! first)) (sink (gen_cells t3 ! g)) \<and>
             out (consumers t3 ! second) =
               take (index (consumers t3 ! second)) (sink (gen_cells t3 ! g)) \<and>
             prefix buffered (sink (gen_cells t3 ! g)) \<and>
             (completed (gen_cells t1 ! g) \<longrightarrow> gen_cells t3 ! g = gen_cells t1 ! g))"
proof -
  let ?s1 = "snd (invoke (MemoRender r) c1 s)"
  have fr: "frame (MemoRender r) c1 s (invoke (MemoRender r) c1 s)" by (rule invoke_frame)
  with assms(1-4) have a: "r < length (elem_cells ?s1)"
    "inner (elem_cells ?s1 ! r) = inner (elem_cells s ! r)"
    "memoizedValues (elem_cells ?s1 ! r) c2 = None"
    by (auto simp: frame_def)
  from a assms(2) have elem: "count_list (trace (snd (invoke (MemoRender r) c2 ?s1))) (r, c2) =
           count_list (trace ?s1) (r, c2) + 1"
    by (intro invoke_miss_count) simp_all
  have rej: "render_element (fst (memo (Promise (Inl e)) s0)) c u = (Returned (Promise (Inl e)), u)"
    by (simp add: Let_def)
  have ful: "render_element (fst (memo (Promise (Inr v)) s0)) c u =
           (Returned (Promise (Inr (fst (memo v (s0\<lparr>memoizedId := memoizedId s0 + 1\<rparr>))))), u)"
    by (simp add: Let_def split: prod.splits)
  let ?first = "length (consumers t)"
  let ?t0 = "subscribe g t"
  let ?t1 = "run es ?t0"
  let ?second = "length (consumers ?t1)"
  let ?buffered = "sink (gen_cells ?t1 ! g)"
  let ?t2 = "subscribe g ?t1"
  let ?t3 = "run es' ?t2"
  have inv0: "gen_inv ?t0" using assms(5) by (rule gen_inv_subscribe)
  have g0: "g < length (gen_cells ?t0)" using assms(6) by (simp add: subscribe_def)
  have f0: "?first < length (consumers ?t0)" "cell (consumers ?t0 ! ?first) = g"
    using assms(6) by (simp_all add: subscribe_def)
  have inv1: "gen_inv ?t1" using inv0 by (rule gen_inv_run)
  from run_sink[OF g0, of es] have g1: "g < length (gen_cells ?t1)" by simp
  from run_consumer[OF f0(1), of es] f0(2)
  have f1: "?first < ?second" "cell (consumers ?t1 ! ?first) = g" by simp_all
  have t2: "?t2 = ?t1\<lparr>consumers := consumers ?t1 @ [\<lparr>cell = g, index = 0, status = Ready, out = []\<rparr>]\<rparr>"
    using g1 by (simp add: subscribe_def)
  have inv2: "gen_inv ?t2" using inv1 by (rule gen_inv_subscribe)
  have g2: "g < length (gen_cells ?t2)" "gen_cells ?t2 = gen_cells ?t1"
    using g1 by (simp_all add: subscribe_def)
  have c2: "?second < length (consumers ?t2)"
    "consumers ?t2 ! ?second = \<lparr>cell = g, index = 0, status = Ready, out = []\<rparr>"
    "?first < length (consumers ?t2)" "cell (consumers ?t2 ! ?first) = g"
    using g1 f1 by (simp_all add: subscribe_def nth_append)
  have replay: "j \<le> length ?buffered \<Longrightarrow>
      run (replicate j (Resume ?second)) ?t2 =
        ?t2\<lparr>consumers := (consumers ?t2)
             [?second := \<lparr>cell = g, index = j, status = Ready, out = take j ?buffered\<rparr>]\<rparr>"
    using replay_buffered[OF c2(1) g2(1) c2(2), of j] by (simp add: g2(2))
  have inv3: "gen_inv ?t3" using inv2 by (rule gen_inv_run)
  from run_sink[OF g2(1), of es'] g2(2)
  have g3: "g < length (gen_cells ?t3)" and pre: "prefix ?buffered (sink (gen_cells ?t3 ! g))"
    by simp_all
  from run_consumer[OF c2(1), of es'] c2(2)
  have s3: "?second < length (consumers ?t3)" "cell (consumers ?t3 ! ?second) = g" by simp_all
  from run_consumer[OF c2(3), of es'] c2(4)
  have f3: "?first < length (consumers ?t3)" "cell (consumers ?t3 ! ?first) = g" by simp_all
  have o1: "out (consumers ?t3 ! ?first) =
      take (index (consumers ?t3 ! ?first)) (sink (gen_cells ?t3 ! g))"
    using gen_inv_consumer[OF inv3 f3(1)] f3(2) by (simp add: consumer_ok_iff)
  have o2: "out (consumers ?t3 ! ?second) =
      take (index (consumers ?t3 ! ?second)) (sink (gen_cells ?t3 ! g))"
    using gen_inv_consumer[OF inv3 s3(1)] s3(2) by (simp add: consumer_ok_iff)
  have fixed: "completed (gen_cells ?t1 ! g) \<Longrightarrow> gen_cells ?t3 ! g = gen_cells ?t1 ! g"
    using run_completed[OF inv2 g2(1), of es'] by (simp add: g2(2))
  have gen: "fst (render_element (MemoizedGenerator n g) c1 t) = Iterator ?first \<and>
             fst (render_element (MemoizedGenerator n g) c2 ?t1) = Iterator ?second \<and>
             ?first < ?second \<and>
             ?t2 = ?t1\<lparr>consumers := consumers ?t1 @ [\<lparr>cell = g, index = 0, status = Ready, out = []\<rparr>]\<rparr> \<and>
             (j \<le> length ?buffered \<longrightarrow>
                run (replicate j (Resume ?second)) ?t2 =
                  ?t2\<lparr>consumers := (consumers ?t2)
                       [?second := \<lparr>cell = g, index = j, status = Ready, out = take j ?buffered\<rparr>]\<rparr>) \<and>
             ?second < length (consumers ?t3) \<and>
             cell (consumers ?t3 ! ?first) = g \<and> cell (consumers ?t3 ! ?second) = g \<and>
             out (consumers ?t3 ! ?first) =
               take (index (consumers ?t3 ! ?first)) (sink (gen_cells ?t3 ! g)) \<and>
             out (consumers ?t3 ! ?second) =
               take (index (consumers ?t3 ! ?second)) (sink (gen_cells ?t3 ! g)) \<and>
             prefix ?buffered (sink (gen_cells ?t3 ! g)) \<and>
             (completed (gen_cells ?t1 ! g) \<longrightarrow> gen_cells ?t3 ! g = gen_cells ?t1 ! g)"
    using f1(1) t2 replay s3 f3(2) o1 o2 pre fixed by simp
  have re: "snd (render_element (MemoizedGenerator n g) c1 t) = ?t0"
    "\<And>x. snd (render_element (MemoizedGenerator n g) c2 x) = subscribe g x" by simp_all
  show ?thesis unfolding Let_def re using elem rej ful gen by blast
qed

theorem memo_scope_witness:
  "0 < length (elem_cells (snd (memo ok_element empty_store))) \<and>
   older (inner (elem_cells (snd (memo ok_element empty_store)) ! 0)) 0 \<and>
   memoizedValues (elem_cells (snd (memo ok_element empty_store)) ! 0) 2 = None \<and>
   (1::nat) \<noteq> 2 \<and>
   gen_inv (snd (memo (Generator three_frames) empty_store)) \<and>
   0 < length (gen_cells (snd (memo (Generator three_frames) empty_store))) \<and>
   count_list (trace (snd (invoke (MemoRender 0) 2
      (snd (invoke (MemoRender 0) 1 (snd (memo ok_element empty_store))))))) (0, 2) = 1 \<and>
   render_element (fst (memo (Promise (Inl (TypeError ''boom''))) empty_store)) 2 drained_ctx1 =
     (Returned (Promise (Inl (TypeError ''boom''))), drained_ctx1) \<and>
   fst (render_element (MemoizedGenerator 1 0) 2 drained_ctx1) = Iterator 1 \<and>
   (2::nat) \<le> length (sink (gen_cells drained_ctx1 ! 0)) \<and>
   out (consumers (run (replicate 2 (Resume 1))
          (snd (render_element (MemoizedGenerator 1 0) 2 drained_ctx1))) ! 1) =
     [Scalar (Str ''a''), Scalar (Str ''ab'')] \<and>
   gen_cells (run (replicate 2 (Resume 1))
          (snd (render_element (MemoizedGenerator 1 0) 2 drained_ctx1))) =
     gen_cells drained_ctx1 \<and>
   completed (gen_cells drained_ctx1 ! 0) \<and>
   gen_cells drained_ctx2 ! 0 = gen_cells drained_ctx1 ! 0 \<and>
   out (consumers drained_ctx2 ! 1) =
     take (index (consumers drained_ctx2 ! 1)) (sink (gen_cells drained_ctx2 ! 0))"
proof -
  let ?drain = "[Resume 0, Settle 0, Resume 0, Resume 0, Settle 0, Resume 0, Resume 0, Settle 0,
                 Resume 0]"
  let ?t2 = "snd (render_element (MemoizedGenerator 1 0) 2 drained_ctx1)"
  have h: "0 < length (elem_cells (snd (memo ok_element empty_store)))"
    "older (inner (elem_cells (snd (memo ok_element empty_store)) ! 0)) 0"
    "memoizedValues (elem_cells (snd (memo ok_element empty_store)) ! 0) 2 = None"
    "(1::nat) \<noteq> 2"
    "gen_inv (snd (memo (Generator three_frames) empty_store))"
    "0 < length (gen_cells (snd (memo (Generator three_frames) empty_store)))"
    by (simp_all add: ok_element_def machine_defs gen_inv_def cell_ok_def)
  have mt: "memoized_three = MemoizedGenerator 1 0"
    by (simp add: memoized_three_def machine_defs)
  have d1: "drained_ctx1 =
      run ?drain (snd (render_element (MemoizedGenerator 1 0) 1
                         (snd (memo (Generator three_frames) empty_store))))"
    unfolding drained_ctx1_def mt ..
  have d2: "drained_ctx2 = run [Resume 1, Resume 1, Resume 1] ?t2"
    unfolding drained_ctx2_def mt ..
  have c: "count_list (trace (snd (invoke (MemoRender 0) 1 (snd (memo ok_element empty_store))))) (0, 2) = 0"
    by (simp add: ok_element_def empty_store_def Let_def)
  have ev: "length (consumers drained_ctx1) = 1"
    "sink (gen_cells drained_ctx1 ! 0) = [Scalar (Str ''a''), Scalar (Str ''ab'')]"
    "completed (gen_cells drained_ctx1 ! 0)"
    by (simp_all add: drained_ctx1_def memoized_three_def machine_defs three_frames_def)
  have two: "(2::nat) \<le> length (sink (gen_cells drained_ctx1 ! 0))" by (simp add: ev(2))
  note th = memo_scope[OF h, where n = 1 and es = ?drain
      and es' = "[Resume 1, Resume 1, Resume 1]" and j = 2 and e = "TypeError ''boom''"
      and v = "Scalar (Str ''hi'')" and ?s0.0 = empty_store and c = 2 and u = drained_ctx1,
      unfolded Let_def d1[symmetric] d2[symmetric] ev(1)]
  from th have a: "count_list (trace (snd (invoke (MemoRender 0) 2
        (snd (invoke (MemoRender 0) 1 (snd (memo ok_element empty_store))))))) (0, 2) =
      count_list (trace (snd (invoke (MemoRender 0) 1 (snd (memo ok_element empty_store))))) (0, 2) + 1"
    and p: "render_element (fst (memo (Promise (Inl (TypeError ''boom''))) empty_store)) 2 drained_ctx1 =
      (Returned (Promise (Inl (TypeError ''boom''))), drained_ctx1)"
    and i: "fst (render_element (MemoizedGenerator 1 0) 2 drained_ctx1) = Iterator 1"
    and t2: "?t2 = drained_ctx1\<lparr>consumers := consumers drained_ctx1 @
                [\<lparr>cell = 0, index = 0, status = Ready, out = []\<rparr>]\<rparr>"
    and rp: "2 \<le> length (sink (gen_cells drained_ctx1 ! 0)) \<longrightarrow>
      run (replicate 2 (Resume 1)) ?t2 =
        ?t2\<lparr>consumers := (consumers ?t2)
              [1 := \<lparr>cell = 0, index = 2, status = Ready,
                     out = take 2 (sink (gen_cells drained_ctx1 ! 0))\<rparr>]\<rparr>"
    and o: "out (consumers drained_ctx2 ! 1) =
      take (index (consumers drained_ctx2 ! 1)) (sink (gen_cells drained_ctx2 ! 0))"
    and f: "completed (gen_cells drained_ctx1 ! 0) \<longrightarrow>
      gen_cells drained_ctx2 ! 0 = gen_cells drained_ctx1 ! 0"
    by blast+
  from a c have a': "count_list (trace (snd (invoke (MemoRender 0) 2
        (snd (invoke (MemoRender 0) 1 (snd (memo ok_element empty_store))))))) (0, 2) = 1"
    by linarith
  from rp two have rp': "run (replicate 2 (Resume 1)) ?t2 =
        ?t2\<lparr>consumers := (consumers ?t2)
              [1 := \<lparr>cell = 0, index = 2, status = Ready,
                     out = take 2 (sink (gen_cells drained_ctx1 ! 0))\<rparr>]\<rparr>" by blast
  have r1: "out (consumers (run (replicate 2 (Resume 1)) ?t2) ! 1) =
      [Scalar (Str ''a''), Scalar (Str ''ab'')]"
    by (subst rp') (simp add: t2[simplified] ev)
  have r2: "gen_cells (run (replicate 2 (Resume 1)) ?t2) = gen_cells drained_ctx1"
    by (subst rp') (simp add: t2[simplified])
  from f ev(3) have f': "gen_cells drained_ctx2 ! 0 = gen_cells drained_ctx1 ! 0" by blast
  from h a' p i two r1 r2 ev(3) f' o show ?thesis by blast
qed

text \<open>
  The claim as it stands fails for a lazy producer: after it was rendered to its end
  under the context 1 (three calls of \<^verbatim>\<open>next\<close>), rendering it under the context 2 ends
  with the same two frames and no further call of \<^verbatim>\<open>next\<close>.
\<close>

theorem memo_scope_counterexample:
  "status (consumers drained_ctx1 ! 0) = Done \<and>
   pulls (gen_cells drained_ctx1 ! 0) = 3 \<and>
   status (consumers drained_ctx2 ! 1) = Done \<and>
   out (consumers drained_ctx2 ! 1) = [Scalar (Str ''a''), Scalar (Str ''ab'')] \<and>
   pulls (gen_cells drained_ctx2 ! 0) = 3"
  by (simp add: drained_ctx2_def drained_ctx1_def memoized_three_def machine_defs
        three_frames_def)

text \<open>
  Claim C1, at the generator that yields \<^verbatim>\<open>"a"\<close> and \<^verbatim>\<open>"ab"\<close> and returns \<^verbatim>\<open>"abc"\<close>.
  Iterated itself it gives the frames \<^verbatim>\<open>"a"\<close>, \<^verbatim>\<open>"ab"\<close> and the final value \<^verbatim>\<open>"abc"\<close>.
  Its memoized form gives the same two frames and ends with \<^verbatim>\<open>undefined\<close>: the return
  value is lost.
\<close>

theorem memo_drops_return_value:
  "iterate 3 three_frames 0 =
     ([Scalar (Str ''a''), Scalar (Str ''ab'')], Some (Inr (Scalar (Str ''abc'')))) \<and>
   out (consumers drained_ctx1 ! 0) = [Scalar (Str ''a''), Scalar (Str ''ab'')] \<and>
   status (consumers drained_ctx1 ! 0) = Done \<and>
   iterator_return (consumers drained_ctx1 ! 0) = Some (Inr (Scalar Undefined))"
  by (simp add: drained_ctx1_def memoized_three_def machine_defs three_frames_def
        iterator_return_def numeral_3_eq_3)


section \<open>Tools and their invocation (batteries/docs-components.tsx)\<close>

text \<open>
  The interface \<^verbatim>\<open>Tool\<close> (lines 128 to 144). \<^verbatim>\<open>FunctionParameter\<close> is declared in
  core/completion, which is not among the sources; the example of lines 197 to 204 shows
  its three fields. A tool function is called with the arguments object; it returns a
  scalar or throws (a rejected promise that is awaited throws as well).
\<close>

record function_parameter =
  pdescription :: string
  ptype :: string
  required :: bool

record tool =
  description :: string
  tool_parameters :: "(string \<times> function_parameter) list"
  func :: "(string \<times> json) list \<Rightarrow> thrown + scalar"

text \<open>
  \<^verbatim>\<open>props.tools\<close> is a \<^verbatim>\<open>Record<string, Tool>\<close>: an object, whose own keys are the tool
  names, in their order. As every object written as a literal it inherits the properties of
  \<^verbatim>\<open>Object.prototype\<close> (ECMAScript, sections 20.1.3 and B.2.2). The operator \<^verbatim>\<open>in\<close> holds
  of own and of inherited properties alike, and \<^verbatim>\<open>obj[key]\<close> reads an own property, else
  an inherited one, else \<^verbatim>\<open>undefined\<close>. No inherited property is a \<^verbatim>\<open>Tool\<close>: its
  \<^verbatim>\<open>func\<close> is \<^verbatim>\<open>undefined\<close>.
\<close>

definition object_prototype_keys :: "string list" where
  "object_prototype_keys =
     [''constructor'', ''hasOwnProperty'', ''isPrototypeOf'', ''propertyIsEnumerable'',
      ''toLocaleString'', ''toString'', ''valueOf'', ''__proto__'', ''__defineGetter__'',
      ''__defineSetter__'', ''__lookupGetter__'', ''__lookupSetter__'']"

definition js_in :: "string \<Rightarrow> (string \<times> tool) list \<Rightarrow> bool" where
  "js_in key obj \<longleftrightarrow> key \<in> set (map fst obj) \<or> key \<in> set object_prototype_keys"

datatype property = Own tool | Inherited | Absent

definition js_get :: "(string \<times> tool) list \<Rightarrow> string \<Rightarrow> property" where
  "js_get obj key =
     (case map_of obj key of
        Some t \<Rightarrow> Own t
      | None \<Rightarrow> if key \<in> set object_prototype_keys then Inherited else Absent)"

text \<open>
  What \<^verbatim>\<open>InvokeTool\<close> returns: \<^verbatim>\<open>props.fallback\<close>, or the \<^verbatim>\<open>ChatCompletion\<close> element of
  lines 113 to 122, which is determined by \<^verbatim>\<open>responseToUser\<close> and the tool's result.
\<close>

datatype invoke_result = Fallback node | ToolAnswer string scalar

text \<open>The two errors that \<^verbatim>\<open>InvokeTool\<close> constructs (lines 91 to 96 and 100 to 105).\<close>

definition could_not_parse :: "code_table \<Rightarrow> string \<Rightarrow> string \<Rightarrow> thrown" where
  "could_not_parse E msg toolChoiceLLMOutput =
     AIJSXError
       (''Failed to parse LLM output into a tool choice: '' @ msg @ ''. Output: '' @
          toolChoiceLLMOutput)
       (E ModelOutputCouldNotBeParsedForTool) Runtime (OutputData toolChoiceLLMOutput)"

definition hallucinated_tool :: "code_table \<Rightarrow> tool_choice \<Rightarrow> thrown" where
  "hallucinated_tool E toolChoiceResult =
     AIJSXError
       (''LLM hallucinated a tool that does not exist: '' @ nameOfTool toolChoiceResult @ ''.'')
       (E ModelHallucinatedTool) Runtime (ChoiceData toolChoiceResult)"

text \<open>
  \<^verbatim>\<open>InvokeTool\<close> (lines 77 to 123). \<^verbatim>\<open>JSON.parse\<close> and the \<^verbatim>\<open>parse\<close> of the zod schema
  are library functions: they are parameters, each returning its value or the message of
  the exception it throws. The last argument is what \<^verbatim>\<open>render(props.toolChoice)\<close>
  resolved to, or what it threw. The \<^verbatim>\<open>try\<close> holds both parsers, so a failure of either
  is caught at line 90; the test for \<^verbatim>\<open>null\<close> comes between them.
\<close>

definition InvokeTool ::
  "code_table \<Rightarrow> (string \<Rightarrow> string + json) \<Rightarrow> (json \<Rightarrow> string + tool_choice) \<Rightarrow>
   (string \<times> tool) list \<Rightarrow> node \<Rightarrow> thrown + string \<Rightarrow> thrown + invoke_result" where
  "InvokeTool E json_parse schema_parse tls fb rendered =
     (case rendered of
        Inl e \<Rightarrow> Inl e
      | Inr toolChoiceLLMOutput \<Rightarrow>
          (case json_parse toolChoiceLLMOutput of
             Inl msg \<Rightarrow> Inl (could_not_parse E msg toolChoiceLLMOutput)
           | Inr parsedJson \<Rightarrow>
               if parsedJson = JNull then Inr (Fallback fb)
               else
                 (case schema_parse parsedJson of
                    Inl msg \<Rightarrow> Inl (could_not_parse E msg toolChoiceLLMOutput)
                  | Inr toolChoiceResult \<Rightarrow>
                      if \<not> js_in (nameOfTool toolChoiceResult) tls
                      then Inl (hallucinated_tool E toolChoiceResult)
                      else
                        (case js_get tls (nameOfTool toolChoiceResult) of
                           Own t \<Rightarrow>
                             (case func t (parameters toolChoiceResult) of
                                Inl e \<Rightarrow> Inl e
                              | Inr toolResult \<Rightarrow>
                                  Inr (ToolAnswer (responseToUser toolChoiceResult) toolResult))
                         | _ \<Rightarrow> Inl (TypeError ''tool.func is not a function'')))))"

text \<open>
  \<^verbatim>\<open>UseToolsPromptEngineered\<close> (lines 298 to 300) is \<^verbatim>\<open>InvokeTool\<close> on the tools and the
  fallback of its props, with the rendering of \<^verbatim>\<open>ChooseTools\<close> as the tool choice.
\<close>

definition UseToolsPromptEngineered ::
  "code_table \<Rightarrow> (string \<Rightarrow> string + json) \<Rightarrow> (json \<Rightarrow> string + tool_choice) \<Rightarrow>
   (string \<times> tool) list \<Rightarrow> node \<Rightarrow> thrown + string \<Rightarrow> thrown + invoke_result" where
  "UseToolsPromptEngineered E json_parse schema_parse tls fb rendered_choice =
     InvokeTool E json_parse schema_parse tls fb rendered_choice"

text \<open>
  \<^verbatim>\<open>toolChoiceSchema\<close> (lines 46 to 50) as a validator: an object with a string
  \<^verbatim>\<open>nameOfTool\<close>, an object \<^verbatim>\<open>parameters\<close> and a string \<^verbatim>\<open>responseToUser\<close>; other keys
  are dropped. The text of zod's message is not modelled.
\<close>

definition toolChoiceSchema :: "json \<Rightarrow> string + tool_choice" where
  "toolChoiceSchema j =
     (case j of
        JObj kv \<Rightarrow>
          (case (map_of kv ''nameOfTool'', map_of kv ''parameters'', map_of kv ''responseToUser'') of
             (Some (JStr n), Some (JObj ps), Some (JStr r)) \<Rightarrow>
               Inr \<lparr>nameOfTool = n, parameters = ps, responseToUser = r\<rparr>
           | _ \<Rightarrow> Inl ''invalid_type'')
      | _ \<Rightarrow> Inl ''invalid_type'')"

text \<open>
  A model output that names the tool \<^verbatim>\<open>constructor\<close>, a parser that knows this output and
  \<^verbatim>\<open>null\<close>, and the tool of examples/src/use-tools.tsx with a constant result.
\<close>

definition constructor_choice :: string where
  \<open>constructor_choice =
     ''{"nameOfTool":"constructor","parameters":{},"responseToUser":"One moment."}''\<close>

definition example_parse :: "string \<Rightarrow> string + json" where
  "example_parse s =
     (if s = constructor_choice
      then Inr (JObj [(''nameOfTool'', JStr ''constructor''), (''parameters'', JObj []),
                      (''responseToUser'', JStr ''One moment.'')])
      else if s = ''null'' then Inr JNull
      else Inl ''Unexpected token'')"

definition calculator :: tool where
  "calculator =
     \<lparr>description = ''Evaluates a mathematical expression'',
      tool_parameters =
        [(''expression'',
          \<lparr>pdescription = ''The mathematical expression to evaluate'', ptype = ''string'',
           required = True\<rparr>)],
      func = (\<lambda>args. Inr (Num 42))\<rparr>"

text \<open>
  The outcomes of \<^verbatim>\<open>InvokeTool\<close> that hold as expected: a failure of either parser gives
  the structured error with the raw output as data, \<^verbatim>\<open>null\<close> gives the fallback, and a
  name that is neither a key of the tools nor a property of \<^verbatim>\<open>Object.prototype\<close> gives
  the hallucinated-tool error.
\<close>

lemma InvokeTool_parse_failure:
  "json_parse output = Inl msg \<Longrightarrow>
   InvokeTool E json_parse schema_parse tls fb (Inr output) = Inl (could_not_parse E msg output)"
  by (simp add: InvokeTool_def)

lemma InvokeTool_validation_failure:
  "json_parse output = Inr j \<Longrightarrow> j \<noteq> JNull \<Longrightarrow> schema_parse j = Inl msg \<Longrightarrow>
   InvokeTool E json_parse schema_parse tls fb (Inr output) = Inl (could_not_parse E msg output)"
  by (simp add: InvokeTool_def)

lemma could_not_parse_fields:
  "err_code (could_not_parse E msg output) = E ModelOutputCouldNotBeParsedForTool \<and>
   err_kind (could_not_parse E msg output) = Some Runtime \<and>
   err_data (could_not_parse E msg output) = OutputData output"
  by (simp add: could_not_parse_def AIJSXError_def)

lemma InvokeTool_null:
  "json_parse output = Inr JNull \<Longrightarrow>
   InvokeTool E json_parse schema_parse tls fb (Inr output) = Inr (Fallback fb)"
  by (simp add: InvokeTool_def)

lemma InvokeTool_unknown_tool:
  "json_parse output = Inr j \<Longrightarrow> j \<noteq> JNull \<Longrightarrow> schema_parse j = Inr choice \<Longrightarrow>
   nameOfTool choice \<notin> set (map fst tls) \<Longrightarrow>
   nameOfTool choice \<notin> set object_prototype_keys \<Longrightarrow>
   InvokeTool E json_parse schema_parse tls fb (Inr output) = Inl (hallucinated_tool E choice)"
  by (simp add: InvokeTool_def js_in_def)

lemma hallucinated_tool_fields:
  "err_code (hallucinated_tool E choice) = E ModelHallucinatedTool \<and>
   err_kind (hallucinated_tool E choice) = Some Runtime"
  by (simp add: hallucinated_tool_def AIJSXError_def)

text \<open>
  Claim C7, at the tool name \<^verbatim>\<open>constructor\<close>. It is not a key of the tools, yet
  \<^verbatim>\<open>"constructor" in props.tools\<close> holds, so line 99 does not throw; \<^verbatim>\<open>tool\<close> is then the
  inherited \<^verbatim>\<open>Object\<close> function, \<^verbatim>\<open>tool.func\<close> is \<^verbatim>\<open>undefined\<close>, and line 108 throws a
  TypeError, which has no code and no kind.
\<close>

theorem InvokeTool_inherited_name:
  "''constructor'' \<notin> set (map fst [(''evaluate_expression'', calculator)]) \<and>
   InvokeTool E example_parse toolChoiceSchema [(''evaluate_expression'', calculator)] fb
     (Inr constructor_choice) = Inl (TypeError ''tool.func is not a function'') \<and>
   err_code (TypeError ''tool.func is not a function'') = CodeUndefined \<and>
   err_kind (TypeError ''tool.func is not a function'') = None"
  by (simp add: InvokeTool_def example_parse_def toolChoiceSchema_def js_in_def js_get_def
        object_prototype_keys_def TypeError_def)



section \<open>UseTools and its fallback\<close>

text \<open>
  Message elements. The tags are the components of core/completion; an element is known
  by its tag, the props \<^verbatim>\<open>name\<close> and \<^verbatim>\<open>args\<close>, and its children: literal text, an
  embedded node, or another message element.
\<close>

datatype msg_tag =
    SystemMessage | UserMessage | AssistantMessage | FunctionCall | FunctionResponse
  | OtherTag string

datatype message =
    Message (tag_of: msg_tag) (name_of: "string option") (args_of: "(string \<times> json) list")
      (children_of: "child list")
and child = Text string | Embedded node | Child message

text \<open>
  A render with a \<^verbatim>\<open>stop\<close> predicate resolves to an array of strings and of the
  elements at which it stopped.
\<close>

datatype part = PText string | PElem message

record use_tools_props =
  tools :: "(string \<times> tool) list"
  query :: string
  fallback :: node
  userData :: "string option"

text \<open>
  \<^verbatim>\<open>UseTools\<close> (lines 219 to 229). The argument is the stream of
  \<^verbatim>\<open>render(<UseToolsFunctionCall {...props} />)\<close>: the frames it yields, which \<^verbatim>\<open>yield*\<close>
  passes on, and what it ends with. On success the result is returned. In the \<^verbatim>\<open>catch\<close>,
  \<^verbatim>\<open>e.code\<close> of \<^verbatim>\<open>null\<close> or \<^verbatim>\<open>undefined\<close> is a TypeError; otherwise \<^verbatim>\<open>e.code\<close> is compared
  with \<^verbatim>\<open>ErrorCode.ChatModelDoesntSupportFunctions\<close>, and the result is the element
  \<^verbatim>\<open><UseToolsPromptEngineered {...props} />\<close> or \<^verbatim>\<open>e\<close> is thrown again.
\<close>

datatype use_tools_return = Rendered string | PromptEngineered use_tools_props

definition UseTools ::
  "code_table \<Rightarrow> use_tools_props \<Rightarrow> string list \<times> (thrown + string) \<Rightarrow>
   string list \<times> (thrown + use_tools_return)" where
  "UseTools E props inner_stream =
     (case inner_stream of
        (frames, Inr rendered) \<Rightarrow> (frames, Inr (Rendered rendered))
      | (frames, Inl e) \<Rightarrow>
          (case e of
             Nullish \<Rightarrow>
               (frames, Inl (TypeError ''Cannot read properties of undefined (reading code)''))
           | ErrorObj m c k d \<Rightarrow>
               if c = E ChatModelDoesntSupportFunctions
               then (frames, Inr (PromptEngineered props))
               else (frames, Inl e)))"

text \<open>
  A code table to run the models on. Its numbers are arbitrary; it declares no member
  \<^verbatim>\<open>ChatModelDoesntSupportFunctions\<close>.
\<close>

definition example_codes :: code_table where
  "example_codes c =
     (case c of
        ModelOutputCouldNotBeParsedForTool \<Rightarrow> CodeNum 1005
      | ModelHallucinatedTool \<Rightarrow> CodeNum 1006
      | ChatModelDoesNotSupportFunctions \<Rightarrow> CodeNum 1021
      | ChatModelDoesntSupportFunctions \<Rightarrow> CodeUndefined
      | ChatCompletionMissingChildren \<Rightarrow> CodeNum 1011
      | ChatCompletionUnexpectedChild \<Rightarrow> CodeNum 1012
      | AnthropicDoesNotSupportFunctions \<Rightarrow> CodeNum 1023
      | AnthropicDoesNotSupportCompletionModels \<Rightarrow> CodeNum 1022
      | AnthropicAPIError \<Rightarrow> CodeNum 1024)"

definition example_props :: use_tools_props where
  "example_props =
     \<lparr>tools = [(''evaluate_expression'', calculator)], query = ''What is 2523231 * 2382382?'',
      fallback = Scalar (Str ''Failed to evaluate the mathematical expression''),
      userData = None\<rparr>"

text \<open>
  Claim C9, as amended. When rendering \<^verbatim>\<open>UseToolsFunctionCall\<close> throws a value \<open>e\<close>
  other than \<^verbatim>\<open>null\<close> and \<^verbatim>\<open>undefined\<close>, \<^verbatim>\<open>UseTools\<close> passes on the frames and returns
  the prompt-engineered fallback exactly when \<^verbatim>\<open>e.code\<close> equals
  \<^verbatim>\<open>ErrorCode.ChatModelDoesntSupportFunctions\<close>; for every other code it throws \<open>e\<close>
  again. In particular, when \<^verbatim>\<open>ErrorCode.ChatModelDoesNotSupportFunctions\<close> is another
  value, the error that \<^verbatim>\<open>AnthropicChatModel\<close> throws with that code is thrown again.
\<close>

theorem UseTools_fallback_iff_code:
  "(e \<noteq> Nullish \<longrightarrow>
      UseTools E props (frames, Inl e) =
        (frames,
         if err_code e = E ChatModelDoesntSupportFunctions then Inr (PromptEngineered props)
         else Inl e)) \<and>
   (E ChatModelDoesNotSupportFunctions \<noteq> E ChatModelDoesntSupportFunctions \<longrightarrow>
      UseTools E props (frames, Inl (AIJSXError msg (E ChatModelDoesNotSupportFunctions) User NoData)) =
        (frames, Inl (AIJSXError msg (E ChatModelDoesNotSupportFunctions) User NoData)))"
  by (cases e) (simp_all add: UseTools_def AIJSXError_def)

theorem UseTools_fallback_iff_code_witness:
  "TypeError ''boom'' \<noteq> Nullish \<and>
   example_codes ChatModelDoesNotSupportFunctions \<noteq> example_codes ChatModelDoesntSupportFunctions \<and>
   UseTools example_codes example_props ([''frame''],
       Inl (AIJSXError ''no functions'' (example_codes ChatModelDoesNotSupportFunctions) User NoData)) =
     ([''frame''],
      Inl (AIJSXError ''no functions'' (example_codes ChatModelDoesNotSupportFunctions) User NoData)) \<and>
   UseTools example_codes example_props ([''frame''], Inl (TypeError ''boom'')) =
     ([''frame''], Inr (PromptEngineered example_props))"
proof -
  have h: "TypeError ''boom'' \<noteq> Nullish"
    "example_codes ChatModelDoesNotSupportFunctions \<noteq> example_codes ChatModelDoesntSupportFunctions"
    "err_code (TypeError ''boom'') = example_codes ChatModelDoesntSupportFunctions"
    by (simp_all add: TypeError_def example_codes_def)
  from UseTools_fallback_iff_code[where e = "TypeError ''boom''" and E = example_codes
      and props = example_props and frames = "[''frame'']" and msg = "''no functions''"] h
  show ?thesis by simp
qed

text \<open>
  The claim as it stands fails for a thrown \<^verbatim>\<open>undefined\<close> or \<^verbatim>\<open>null\<close>: reading \<^verbatim>\<open>e.code\<close>
  in the \<^verbatim>\<open>catch\<close> is a TypeError, so \<^verbatim>\<open>UseTools\<close> neither returns the fallback nor throws
  \<open>e\<close> again.
\<close>

theorem UseTools_nullish_counterexample:
  "UseTools example_codes example_props ([''frame''], Inl Nullish) =
     ([''frame''], Inl (TypeError ''Cannot read properties of undefined (reading code)'')) \<and>
   UseTools example_codes example_props ([''frame''], Inl Nullish) \<noteq>
     ([''frame''], Inr (PromptEngineered example_props)) \<and>
   UseTools example_codes example_props ([''frame''], Inl Nullish) \<noteq>
     ([''frame''], Inl Nullish)"
  by (simp add: UseTools_def TypeError_def)


section \<open>UseToolsFunctionCall\<close>

text \<open>\<^verbatim>\<open>if (props.fallback)\<close>: the falsy nodes are the empty string, zero, false, null and undefined.\<close>

fun truthy :: "node \<Rightarrow> bool" where
  "truthy (Scalar (Str s)) = (s \<noteq> [])"
| "truthy (Scalar (Num n)) = (n \<noteq> 0)"
| "truthy (Scalar (Boolean b)) = b"
| "truthy (Scalar Null) = False"
| "truthy (Scalar Undefined) = False"
| "truthy x = True"

text \<open>The messages before the first round (lines 236 to 244).\<close>

definition initial_messages :: "use_tools_props \<Rightarrow> message list" where
  "initial_messages props =
     [Message SystemMessage None []
        [Text ''You are a smart agent that may use functions to answer a user question.'']] @
     (if truthy (fallback props)
      then [Message SystemMessage None []
              [Text ''Here's the fallback strategy/message if something failed: '',
               Embedded (fallback props)]]
      else []) @
     [Message UserMessage None [] [Embedded (Scalar (Str (query props)))]]"

text \<open>
  The \<^verbatim>\<open>functionDefinitions\<close> prop of lines 249 to 253, and the chat model: what
  \<^verbatim>\<open>render(model_response, {stop})\<close> yields and resolves to, or throws, for given function
  definitions and messages. It is a parameter.
\<close>

type_synonym function_definition = "string \<times> string \<times> (string \<times> function_parameter) list"

definition functionDefinitions :: "(string \<times> tool) list \<Rightarrow> function_definition list" where
  "functionDefinitions tls = map (\<lambda>(toolName, t). (toolName, description t, tool_parameters t)) tls"

type_synonym chat_model =
  "function_definition list \<Rightarrow> message list \<Rightarrow> part list list \<times> (thrown + part list)"

text \<open>What the generator yields: a frame passed on by \<^verbatim>\<open>yield*\<close>, or an element.\<close>

datatype emitted = Frame "part list" | Emit message

text \<open>\<^verbatim>\<open>Array.prototype.join\<close>; an element in the array is converted by \<^verbatim>\<open>String\<close>.\<close>

fun part_to_string :: "part \<Rightarrow> string" where
  "part_to_string (PText s) = s"
| "part_to_string (PElem m) = ''[object Object]''"

fun join :: "string \<Rightarrow> string list \<Rightarrow> string" where
  "join sep [] = []"
| "join sep [x] = x"
| "join sep (x # y # ys) = x @ sep @ join sep (y # ys)"

text \<open>A value in a template literal, or as a property key: \<^verbatim>\<open>undefined\<close> reads "undefined".\<close>

definition template :: "string option \<Rightarrow> string" where
  "template v = (case v of Some s \<Rightarrow> s | None \<Rightarrow> ''undefined'')"

text \<open>
  The \<^verbatim>\<open>catch\<close> of line 280: the response becomes the text of line 281. Reading
  \<^verbatim>\<open>e.message\<close> of \<^verbatim>\<open>null\<close> or \<^verbatim>\<open>undefined\<close> throws in the \<^verbatim>\<open>catch\<close> block itself; then
  \<^verbatim>\<open>response\<close> stays \<^verbatim>\<open>undefined\<close> and the TypeError leaves the \<^verbatim>\<open>try\<close> statement after
  its \<^verbatim>\<open>finally\<close> block.
\<close>

definition caught :: "thrown \<Rightarrow> scalar \<times> thrown option" where
  "caught e =
     (case e of
        Nullish \<Rightarrow> (Undefined, Some (TypeError ''Cannot read properties of undefined (reading message)''))
      | ErrorObj m c k d \<Rightarrow>
          (Str (''Function called failed with error: '' @ template m @ ''.''), None))"

text \<open>
  Lines 277 to 281: the response, and what is thrown out of the \<^verbatim>\<open>catch\<close> block if
  anything. \<^verbatim>\<open>props.tools[name].func\<close> of a name that is not a tool throws a TypeError
  inside the \<^verbatim>\<open>try\<close>, or gives \<^verbatim>\<open>undefined\<close>, whose call throws one.
\<close>

definition call_tool :: "(string \<times> tool) list \<Rightarrow> message \<Rightarrow> scalar \<times> thrown option" where
  "call_tool tls functionCall =
     (case js_get tls (template (name_of functionCall)) of
        Own t \<Rightarrow>
          (case func t (args_of functionCall) of
             Inr response \<Rightarrow> (response, None)
           | Inl e \<Rightarrow> caught e)
      | Inherited \<Rightarrow> caught (TypeError ''callable is not a function'')
      | Absent \<Rightarrow> caught (TypeError ''Cannot read properties of undefined (reading func)''))"

definition function_response :: "message \<Rightarrow> scalar \<Rightarrow> message" where
  "function_response functionCall response =
     Message FunctionResponse (name_of functionCall) [] [Embedded (Scalar response)]"

definition unexpected_result :: "code_table \<Rightarrow> part list \<Rightarrow> thrown" where
  "unexpected_result E renderResult =
     AIJSXError (''Unexpected result from render '' @ join '', '' (map part_to_string renderResult))
       (E ModelOutputCouldNotBeParsedForTool) Runtime NoData"

text \<open>
  The \<^verbatim>\<open>do ... while (true)\<close> of lines 246 to 291, with a bound on the number of rounds:
  \<open>None\<close> says that the generator has not ended within them. A round renders the chat
  completion; a result that starts with an element must be one \<^verbatim>\<open>FunctionCall\<close>, which is
  pushed and yielded, then the tool is called, and the \<^verbatim>\<open>finally\<close> block yields and pushes
  the \<^verbatim>\<open>FunctionResponse\<close>; any other result ends the generator with the joined text.
\<close>

fun completion_loop ::
  "nat \<Rightarrow> code_table \<Rightarrow> chat_model \<Rightarrow> (string \<times> tool) list \<Rightarrow> message list \<Rightarrow>
   emitted list \<times> (thrown + string) option" where
  "completion_loop 0 E chat tls messages = ([], None)"
| "completion_loop (Suc n) E chat tls messages =
     (case chat (functionDefinitions tls) messages of
        (frames, Inl e) \<Rightarrow> (map Frame frames, Some (Inl e))
      | (frames, Inr renderResult) \<Rightarrow>
          (case renderResult of
             PElem functionCall # rest \<Rightarrow>
               if rest \<noteq> [] \<or> tag_of functionCall \<noteq> FunctionCall
               then (map Frame frames, Some (Inl (unexpected_result E renderResult)))
               else
                 (case call_tool tls functionCall of
                    (response, Some e) \<Rightarrow>
                      (map Frame frames @
                         [Emit functionCall, Emit (function_response functionCall response)],
                       Some (Inl e))
                  | (response, None) \<Rightarrow>
                      (case completion_loop n E chat tls
                              (messages @ [functionCall, function_response functionCall response]) of
                         (later, r) \<Rightarrow>
                           (map Frame frames @
                              [Emit functionCall, Emit (function_response functionCall response)] @
                              later,
                            r)))
           | _ \<Rightarrow> (map Frame frames, Some (Inr (join [] (map part_to_string renderResult))))))"

definition UseToolsFunctionCall ::
  "nat \<Rightarrow> code_table \<Rightarrow> chat_model \<Rightarrow> use_tools_props \<Rightarrow> emitted list \<times> (thrown + string) option" where
  "UseToolsFunctionCall fuel E chat props =
     completion_loop fuel E chat (tools props) (initial_messages props)"

lemma completion_loop_tool_failure:
  assumes "chat (functionDefinitions tls) messages = (frames, Inr [PElem functionCall])"
    and "tag_of functionCall = FunctionCall"
    and "js_get tls (template (name_of functionCall)) = Own t"
    and "func t (args_of functionCall) = Inl (ErrorObj m c k d)"
  shows "completion_loop (Suc n) E chat tls messages =
           (case completion_loop n E chat tls
                   (messages @ [functionCall,
                      Message FunctionResponse (name_of functionCall) []
                        [Embedded (Scalar (Str (''Function called failed with error: '' @ template m @ ''.'')))]]) of
              (later, r) \<Rightarrow>
                (map Frame frames @
                   [Emit functionCall,
                    Emit (Message FunctionResponse (name_of functionCall) []
                      [Embedded (Scalar (Str (''Function called failed with error: '' @ template m @ ''.'')))])] @
                   later, r))"
proof -
  have ct: "call_tool tls functionCall =
      (Str (''Function called failed with error: '' @ template m @ ''.''), None)"
    using assms(3,4) by (simp add: call_tool_def caught_def)
  show ?thesis
    by (simp add: assms(1) assms(2) ct function_response_def)
qed

text \<open>
  Claim C10, as amended. Let the model produce a \<^verbatim>\<open>FunctionCall\<close> element whose tool
  function throws a value other than \<^verbatim>\<open>null\<close> and \<^verbatim>\<open>undefined\<close>. Then the exception does not reach the caller: the
  generator yields the function call and a \<^verbatim>\<open>FunctionResponse\<close> whose content is the
  string \<^verbatim>\<open>Function called failed with error: \<close> followed by the message of the exception
  and a full stop, both are appended to the messages, and the loop goes on with another
  chat completion on the longer list of messages.
\<close>

theorem tool_failure_becomes_response:
  assumes "chat (functionDefinitions tls) messages = (frames, Inr [PElem functionCall])"
    and "tag_of functionCall = FunctionCall"
    and "js_get tls (template (name_of functionCall)) = Own t"
    and "func t (args_of functionCall) = Inl (ErrorObj m c k d)"
  shows "completion_loop (Suc (Suc n)) E chat tls messages =
           (map Frame frames @
              [Emit functionCall,
               Emit (Message FunctionResponse (name_of functionCall) []
                 [Embedded (Scalar (Str (''Function called failed with error: '' @ template m @ ''.'')))])] @
              fst (completion_loop (Suc n) E chat tls
                (messages @ [functionCall,
                   Message FunctionResponse (name_of functionCall) []
                     [Embedded (Scalar (Str (''Function called failed with error: '' @ template m @ ''.'')))]])),
            snd (completion_loop (Suc n) E chat tls
                (messages @ [functionCall,
                   Message FunctionResponse (name_of functionCall) []
                     [Embedded (Scalar (Str (''Function called failed with error: '' @ template m @ ''.'')))]])))"
  unfolding completion_loop_tool_failure[where chat = chat and tls = tls and messages = messages
      and n = "Suc n" and E = E, OF assms]
  by (simp only: split_beta)


text \<open>
  A tool that throws an error, a model that calls the tool once and then answers, props
  with that tool, and props whose tool throws \<^verbatim>\<open>undefined\<close> (as \<^verbatim>\<open>Promise.reject()\<close> does).
\<close>

definition failing_tool :: tool where
  "failing_tool =
     \<lparr>description = ''Evaluates a mathematical expression'', tool_parameters = [],
      func = (\<lambda>args. Inl (ErrorObj (Some ''boom'') CodeUndefined None NoData))\<rparr>"

definition example_call :: message where
  "example_call =
     Message FunctionCall (Some ''evaluate_expression'') [(''expression'', JStr ''1/0'')] []"

definition example_chat :: chat_model where
  "example_chat defs messages =
     (if length messages = 3 then ([], Inr [PElem example_call])
      else ([], Inr [PText ''Sorry, that failed.'']))"

definition failing_props :: use_tools_props where
  "failing_props =
     \<lparr>tools = [(''evaluate_expression'', failing_tool)], query = ''What is 1/0?'',
      fallback = Scalar (Str ''Say sorry.''), userData = None\<rparr>"

definition rejecting_props :: use_tools_props where
  "rejecting_props =
     \<lparr>tools = [(''evaluate_expression'', failing_tool\<lparr>func := (\<lambda>args. Inl Nullish)\<rparr>)],
      query = ''What is 1/0?'', fallback = Scalar (Str ''Say sorry.''), userData = None\<rparr>"

theorem tool_failure_becomes_response_witness:
  "example_chat (functionDefinitions (tools failing_props)) (initial_messages failing_props) =
     ([], Inr [PElem example_call]) \<and>
   tag_of example_call = FunctionCall \<and>
   js_get (tools failing_props) (template (name_of example_call)) = Own failing_tool \<and>
   func failing_tool (args_of example_call) = Inl (ErrorObj (Some ''boom'') CodeUndefined None NoData) \<and>
   completion_loop 2 example_codes example_chat (tools failing_props) (initial_messages failing_props) =
     ([Emit example_call,
       Emit (Message FunctionResponse (Some ''evaluate_expression'') []
         [Embedded (Scalar (Str ''Function called failed with error: boom.''))])],
      Some (Inr ''Sorry, that failed.''))"
proof -
  have h1: "example_chat (functionDefinitions (tools failing_props)) (initial_messages failing_props) =
     ([], Inr [PElem example_call])"
    by (simp add: example_chat_def initial_messages_def failing_props_def)
  have h2: "tag_of example_call = FunctionCall" by (simp add: example_call_def)
  have h3: "js_get (tools failing_props) (template (name_of example_call)) = Own failing_tool"
    by (simp add: js_get_def failing_props_def example_call_def template_def)
  have h4: "func failing_tool (args_of example_call) =
      Inl (ErrorObj (Some ''boom'') CodeUndefined None NoData)"
    by (simp add: failing_tool_def)
  have next_round: "completion_loop (Suc 0) example_codes example_chat (tools failing_props)
      (initial_messages failing_props @ [example_call,
         Message FunctionResponse (name_of example_call) []
           [Embedded (Scalar (Str (''Function called failed with error: '' @ template (Some ''boom'') @ ''.'')))]]) =
      ([], Some (Inr ''Sorry, that failed.''))"
    by (simp add: example_chat_def initial_messages_def failing_props_def)
  note eq = tool_failure_becomes_response[where chat = example_chat and tls = "tools failing_props"
      and messages = "initial_messages failing_props" and n = 0 and E = example_codes,
      OF h1 h2 h3 h4]
  have r: "completion_loop (Suc (Suc 0)) example_codes example_chat (tools failing_props)
      (initial_messages failing_props) =
     ([Emit example_call,
       Emit (Message FunctionResponse (name_of example_call) []
         [Embedded (Scalar (Str (''Function called failed with error: '' @ template (Some ''boom'') @ ''.'')))])],
      Some (Inr ''Sorry, that failed.''))"
    unfolding eq next_round by simp
  have nm: "name_of example_call = Some ''evaluate_expression''"
    "''Function called failed with error: '' @ template (Some ''boom'') @ ''.'' =
     ''Function called failed with error: boom.''"
    by (simp_all add: example_call_def template_def)
  have two: "(2::nat) = Suc (Suc 0)" by simp
  show ?thesis
    unfolding two using h1 h2 h3 h4 r[unfolded nm] by blast
qed

text \<open>
  The claim as it stands gives the content without the full stop that line 281 puts
  after the message. And a tool that throws \<^verbatim>\<open>undefined\<close> does reach the caller: reading
  \<^verbatim>\<open>e.message\<close> throws a TypeError in the \<^verbatim>\<open>catch\<close> block, the \<^verbatim>\<open>finally\<close> block yields a
  response with the content \<^verbatim>\<open>undefined\<close>, and the generator ends with the TypeError.
\<close>

theorem tool_failure_response_counterexample:
  "UseToolsFunctionCall 2 example_codes example_chat failing_props =
     ([Emit example_call,
       Emit (Message FunctionResponse (Some ''evaluate_expression'') []
         [Embedded (Scalar (Str ''Function called failed with error: boom.''))])],
      Some (Inr ''Sorry, that failed.'')) \<and>
   ''Function called failed with error: boom.'' \<noteq> ''Function called failed with error: '' @ ''boom'' \<and>
   UseToolsFunctionCall 2 example_codes example_chat rejecting_props =
     ([Emit example_call,
       Emit (Message FunctionResponse (Some ''evaluate_expression'') []
         [Embedded (Scalar Undefined)])],
      Some (Inl (TypeError ''Cannot read properties of undefined (reading message)'')))"
  by (simp add: UseToolsFunctionCall_def numeral_2_eq_2 example_chat_def initial_messages_def
        failing_props_def rejecting_props_def call_tool_def js_get_def template_def
        example_call_def caught_def failing_tool_def function_response_def)


section \<open>AnthropicChatModel (lib/anthropic.tsx)\<close>

text \<open>
  The props that the function reads: whether \<^verbatim>\<open>'functionDefinitions' in props\<close>, the model
  and the sampling options (\<^verbatim>\<open>temperature\<close> and \<^verbatim>\<open>topP\<close> are passed on unchanged and
  left out); the request; what \<^verbatim>\<open>anthropic.completions.create\<close> gives: an
  \<^verbatim>\<open>APIError\<close> with its message and its entries, another exception, or the texts of the
  stream; and the frames.
\<close>

record anthropic_props =
  has_functionDefinitions :: bool
  model :: string
  maxTokens :: "nat option"
  stop :: "string list option"

record completion_request =
  prompt :: string
  max_tokens_to_sample :: nat
  request_model :: string
  stop_sequences :: "string list option"

datatype api_result =
    APIError string "(string \<times> string) list"
  | OtherFailure thrown
  | Completions "string list"

datatype stream_frame = AppendOnlyStream | AssistantStream "string list"

definition defaultMaxTokens :: nat where
  "defaultMaxTokens = 1000"

text \<open>
  Lines 115 to 126: the elements of the rendering, with each \<^verbatim>\<open>SystemMessage\<close> replaced
  by a \<^verbatim>\<open>UserMessage\<close> that holds it and an \<^verbatim>\<open>AssistantMessage\<close>.
\<close>

definition as_messages :: "part list \<Rightarrow> message list" where
  "as_messages messageElements =
     concat (map (\<lambda>p. case p of
                PText s \<Rightarrow> []
              | PElem m \<Rightarrow>
                  if tag_of m = SystemMessage
                  then [Message UserMessage None []
                          [Text ''For subsequent replies you will adhere to the following instructions: '',
                           Child m],
                        Message AssistantMessage None [] [Text ''Okay, I will do that.'']]
                  else [m]) messageElements)"

fun tag_name :: "msg_tag \<Rightarrow> string" where
  "tag_name SystemMessage = ''SystemMessage''"
| "tag_name UserMessage = ''UserMessage''"
| "tag_name AssistantMessage = ''AssistantMessage''"
| "tag_name FunctionCall = ''FunctionCall''"
| "tag_name FunctionResponse = ''FunctionResponse''"
| "tag_name (OtherTag n) = n"

text \<open>
  Lines 127 to 149. The function given to \<^verbatim>\<open>map\<close> throws for a tag that is neither
  \<^verbatim>\<open>UserMessage\<close> nor \<^verbatim>\<open>AssistantMessage\<close> before it awaits anything, so such a promise
  is rejected when \<^verbatim>\<open>Promise.all\<close> is called, and the first of them rejects the whole.
  Otherwise each message is rendered; which failing render rejects the whole depends on
  the time each takes, and the model takes the first in the order of the messages.
\<close>

definition unsupported :: "code_table \<Rightarrow> message \<Rightarrow> thrown option" where
  "unsupported E m =
     (case tag_of m of
        UserMessage \<Rightarrow> None
      | AssistantMessage \<Rightarrow> None
      | FunctionCall \<Rightarrow>
          Some (AIJSXError ''Anthropic models do not support functions.''
                  (E AnthropicDoesNotSupportFunctions) User NoData)
      | FunctionResponse \<Rightarrow>
          Some (AIJSXError ''Anthropic models do not support functions.''
                  (E AnthropicDoesNotSupportFunctions) User NoData)
      | _ \<Rightarrow>
          Some (AIJSXError
                  (''ChatCompletion's prompts must be UserMessage or AssistantMessage, but this child was '' @
                     tag_name (tag_of m))
                  (E ChatCompletionUnexpectedChild) Internal NoData))"

definition prompt_line :: "string \<Rightarrow> string \<Rightarrow> message \<Rightarrow> string \<Rightarrow> string" where
  "prompt_line HUMAN_PROMPT AI_PROMPT m text =
     (if tag_of m = UserMessage
      then HUMAN_PROMPT @ '':'' @
           (case name_of m of
              Some n \<Rightarrow> if n \<noteq> [] then '' ('' @ n @ '')'' else []
            | None \<Rightarrow> []) @ '' '' @ text
      else AI_PROMPT @ '': '' @ text)"

fun first_thrown :: "thrown option list \<Rightarrow> thrown option" where
  "first_thrown [] = None"
| "first_thrown (None # xs) = first_thrown xs"
| "first_thrown (Some e # xs) = Some e"

fun all_settled :: "(thrown + string) list \<Rightarrow> thrown + string list" where
  "all_settled [] = Inr []"
| "all_settled (Inl e # xs) = Inl e"
| "all_settled (Inr x # xs) = (case all_settled xs of Inl e \<Rightarrow> Inl e | Inr ys \<Rightarrow> Inr (x # ys))"

definition to_prompts ::
  "code_table \<Rightarrow> string \<Rightarrow> string \<Rightarrow> (message \<Rightarrow> thrown + string) \<Rightarrow> message list \<Rightarrow>
   thrown + string list" where
  "to_prompts E HUMAN_PROMPT AI_PROMPT render ms =
     (case first_thrown (map (unsupported E) ms) of
        Some e \<Rightarrow> Inl e
      | None \<Rightarrow>
          all_settled
            (map (\<lambda>m. case render m of
                         Inl e \<Rightarrow> Inl e
                       | Inr text \<Rightarrow> Inr (prompt_line HUMAN_PROMPT AI_PROMPT m text)) ms))"

text \<open>Lines 198 to 209: one leading space of the first text that is not empty is dropped.\<close>

fun trim_first :: "string list \<Rightarrow> string list" where
  "trim_first [] = []"
| "trim_first (text # rest) =
     (if text \<noteq> [] then (if hd text = CHR '' '' then tl text else text) # rest
      else text # trim_first rest)"

text \<open>The errors of lines 153 to 157 and 99 to 103.\<close>

definition missing_children :: "code_table \<Rightarrow> thrown" where
  "missing_children E =
     AIJSXError
       (''ChatCompletion must have at least one child that's UserMessage or AssistantMessage, '' @
        ''but no such children were found.'')
       (E ChatCompletionMissingChildren) User NoData"

definition functions_not_supported :: "code_table \<Rightarrow> thrown" where
  "functions_not_supported E =
     AIJSXError
       ''Anthropic does not support function calling, but function definitions were provided.''
       (E ChatModelDoesNotSupportFunctions) User NoData"

text \<open>
  \<^verbatim>\<open>AnthropicChatModel\<close> (lines 94 to 219). The parameters are the two prompt constants of
  the SDK, the \<^verbatim>\<open>render\<close> of the component context on a message, and the client; the last
  argument is what \<^verbatim>\<open>render(props.children, {stop})\<close> resolved to, or threw. The result is
  the frames yielded and how the generator ended.
\<close>

definition AnthropicChatModel ::
  "code_table \<Rightarrow> string \<Rightarrow> string \<Rightarrow> (message \<Rightarrow> thrown + string) \<Rightarrow>
   (completion_request \<Rightarrow> api_result) \<Rightarrow> anthropic_props \<Rightarrow> thrown + part list \<Rightarrow>
   stream_frame list \<times> (thrown + stream_frame)" where
  "AnthropicChatModel E HUMAN_PROMPT AI_PROMPT render create props rendered_children =
     (if has_functionDefinitions props then ([], Inl (functions_not_supported E))
      else
        (case rendered_children of
           Inl e \<Rightarrow> ([AppendOnlyStream], Inl e)
         | Inr messageElements \<Rightarrow>
             (case to_prompts E HUMAN_PROMPT AI_PROMPT render (as_messages messageElements) of
                Inl e \<Rightarrow> ([AppendOnlyStream], Inl e)
              | Inr messages \<Rightarrow>
                  if messages = [] then ([AppendOnlyStream], Inl (missing_children E))
                  else
                    (case create
                            \<lparr>prompt = join [CHR 0x0A, CHR 0x0A] (messages @ [AI_PROMPT]),
                             max_tokens_to_sample =
                               (case maxTokens props of None \<Rightarrow> defaultMaxTokens | Some n \<Rightarrow> n),
                             request_model = model props,
                             stop_sequences = stop props\<rparr> of
                       APIError msg entries \<Rightarrow>
                         ([AppendOnlyStream],
                          Inl (AIJSXError msg (E AnthropicAPIError) Runtime (ApiData entries)))
                     | OtherFailure e \<Rightarrow> ([AppendOnlyStream], Inl e)
                     | Completions texts \<Rightarrow>
                         ([AppendOnlyStream, AssistantStream (trim_first texts)],
                          Inr AppendOnlyStream)))))"

text \<open>A rendering without any element.\<close>

definition text_only :: "part list \<Rightarrow> bool" where
  "text_only parts = list_all (\<lambda>p. case p of PText s \<Rightarrow> True | PElem m \<Rightarrow> False) parts"

lemma as_messages_text_only: "text_only parts \<Longrightarrow> as_messages parts = []"
  by (induction parts) (auto simp: text_only_def as_messages_def split: part.splits)

text \<open>
  Claim C8, as amended. With a \<^verbatim>\<open>functionDefinitions\<close> entry in the props,
  \<^verbatim>\<open>AnthropicChatModel\<close> fails before it yields any frame, with the code
  \<^verbatim>\<open>ChatModelDoesNotSupportFunctions\<close> and the kind user. Without that entry, and for
  children whose rendering, stopped at message elements, holds no element at all, it yields
  the append-only marker and fails with the code \<^verbatim>\<open>ChatCompletionMissingChildren\<close> and the
  kind user.
\<close>

theorem AnthropicChatModel_user_errors:
  "(has_functionDefinitions props \<longrightarrow>
      AnthropicChatModel E HUMAN_PROMPT AI_PROMPT render create props rendered_children =
        ([], Inl (functions_not_supported E))) \<and>
   (\<not> has_functionDefinitions props \<and> text_only parts \<longrightarrow>
      AnthropicChatModel E HUMAN_PROMPT AI_PROMPT render create props (Inr parts) =
        ([AppendOnlyStream], Inl (missing_children E))) \<and>
   err_code (functions_not_supported E) = E ChatModelDoesNotSupportFunctions \<and>
   err_kind (functions_not_supported E) = Some User \<and>
   err_code (missing_children E) = E ChatCompletionMissingChildren \<and>
   err_kind (missing_children E) = Some User"
  by (simp add: AnthropicChatModel_def as_messages_text_only to_prompts_def
        functions_not_supported_def missing_children_def AIJSXError_def)

text \<open>Props with and without function definitions, a lone system message, a client and a render.\<close>

definition with_functions :: anthropic_props where
  "with_functions =
     \<lparr>has_functionDefinitions = True, model = ''claude-1'', maxTokens = None, stop = None\<rparr>"

definition plain_props :: anthropic_props where
  "plain_props =
     \<lparr>has_functionDefinitions = False, model = ''claude-1'', maxTokens = None, stop = None\<rparr>"

definition system_only :: message where
  "system_only = Message SystemMessage None [] [Text ''Be brief.'']"

definition example_create :: "completion_request \<Rightarrow> api_result" where
  "example_create request = Completions ['' Hi'', ''!'']"

definition example_render :: "message \<Rightarrow> thrown + string" where
  "example_render m = Inr ''text''"

theorem AnthropicChatModel_user_errors_witness:
  "has_functionDefinitions with_functions \<and>
   AnthropicChatModel example_codes ''Human'' ''Assistant'' example_render example_create
      with_functions (Inr [PText ''hello'']) =
     ([], Inl (functions_not_supported example_codes)) \<and>
   \<not> has_functionDefinitions plain_props \<and> text_only [PText ''hello''] \<and>
   AnthropicChatModel example_codes ''Human'' ''Assistant'' example_render example_create
      plain_props (Inr [PText ''hello'']) =
     ([AppendOnlyStream], Inl (missing_children example_codes))"
proof -
  have h1: "has_functionDefinitions with_functions" by (simp add: with_functions_def)
  have h2: "\<not> has_functionDefinitions plain_props \<and> text_only [PText ''hello'']"
    by (simp add: plain_props_def text_only_def)
  from AnthropicChatModel_user_errors[of with_functions example_codes "''Human''" "''Assistant''"
      example_render example_create "Inr [PText ''hello'']" "[]"] h1
  have a: "AnthropicChatModel example_codes ''Human'' ''Assistant'' example_render example_create
      with_functions (Inr [PText ''hello'']) = ([], Inl (functions_not_supported example_codes))"
    by blast
  from AnthropicChatModel_user_errors[of plain_props example_codes "''Human''" "''Assistant''"
      example_render example_create "Inl Nullish" "[PText ''hello'']"] h2
  have b: "AnthropicChatModel example_codes ''Human'' ''Assistant'' example_render example_create
      plain_props (Inr [PText ''hello'']) = ([AppendOnlyStream], Inl (missing_children example_codes))"
    by blast
  from h1 h2 a b show ?thesis by blast
qed

text \<open>
  The claim as it stands fails for children that render to a lone \<^verbatim>\<open>SystemMessage\<close>:
  there is no \<^verbatim>\<open>UserMessage\<close> and no \<^verbatim>\<open>AssistantMessage\<close> in the rendering, but line 118
  turns the system message into one of each, and the model is called.
\<close>

theorem AnthropicChatModel_system_only_counterexample:
  "tag_of system_only = SystemMessage \<and>
   AnthropicChatModel example_codes ''Human'' ''Assistant'' example_render example_create
      plain_props (Inr [PElem system_only]) =
     ([AppendOnlyStream, AssistantStream [''Hi'', ''!'']], Inr AppendOnlyStream)"
  by (simp add: AnthropicChatModel_def plain_props_def system_only_def as_messages_def
        to_prompts_def unsupported_def example_render_def example_create_def)

end
